(* ===== verification/Prelude.thy ===== *)
theory Prelude
  imports Main "HOL-Library.Word" "HOL-Library.Monad_Syntax"
begin

text \<open>
  Shared vocabulary of the development: the fixed-width integers of Go, byte slices with
  Go's bounds checks, the big-endian accessors of \<^verbatim>\<open>encoding/binary\<close>, and the lemmas on
  lists and words that the components use.

  A Go expression that panics when an index or a slice bound is out of range has type
  \<open>'a option\<close> here, and \<open>None\<close> is the panic; the \<open>do\<close> notation of
  \<^verbatim>\<open>Monad_Syntax\<close> sequences such expressions, so a panic anywhere ends the function, as it
  does in Go. Capacities are not modelled: a slice expression may not go past the length.
\<close>

unbundle bit_operations_syntax

section \<open>Machine integers and bytes\<close>

type_synonym u8 = "8 word"
type_synonym u16 = "16 word"
type_synonym u32 = "32 word"
type_synonym u64 = "64 word"
type_synonym bytes = "u8 list"

named_theorems go_defs
  \<open>definitions of the slice and byte-order primitives\<close>

section \<open>Slices\<close>

text \<open>\<open>b[i]\<close>, \<open>b[i] = v\<close>, \<open>b[i:j]\<close>, \<open>b[i:]\<close> and \<open>copy(b[i:j], src)\<close>.\<close>

definition idx :: "'a list \<Rightarrow> nat \<Rightarrow> 'a option" where
  "idx b i = (if i < length b then Some (b ! i) else None)"

definition set_idx :: "'a list \<Rightarrow> nat \<Rightarrow> 'a \<Rightarrow> 'a list option" where
  "set_idx b i v = (if i < length b then Some (b[i := v]) else None)"

definition slice :: "'a list \<Rightarrow> nat \<Rightarrow> nat \<Rightarrow> 'a list option" where
  "slice b i j = (if i \<le> j \<and> j \<le> length b then Some (take (j - i) (drop i b)) else None)"

definition slice_from :: "'a list \<Rightarrow> nat \<Rightarrow> 'a list option" where
  "slice_from b i = (if i \<le> length b then Some (drop i b) else None)"

fun overwrite :: "'a list \<Rightarrow> nat \<Rightarrow> 'a list \<Rightarrow> 'a list" where
  "overwrite b i [] = b"
| "overwrite b i (x # xs) = overwrite (b[i := x]) (Suc i) xs"

definition copy_at :: "'a list \<Rightarrow> nat \<Rightarrow> nat \<Rightarrow> 'a list \<Rightarrow> 'a list option" where
  "copy_at b i j src =
     (if i \<le> j \<and> j \<le> length b then Some (overwrite b i (take (j - i) src)) else None)"

declare idx_def [go_defs] set_idx_def [go_defs] slice_def [go_defs]
  slice_from_def [go_defs] copy_at_def [go_defs]

section \<open>Big-endian integers\<close>

definition be16 :: "u8 \<Rightarrow> u8 \<Rightarrow> u16" where
  "be16 a b = push_bit 8 (ucast a) OR ucast b"

definition hi8 :: "u16 \<Rightarrow> u8" where
  "hi8 v = ucast (drop_bit 8 v)"

definition lo8 :: "u16 \<Rightarrow> u8" where
  "lo8 v = ucast v"

definition be32 :: "u8 \<Rightarrow> u8 \<Rightarrow> u8 \<Rightarrow> u8 \<Rightarrow> u32" where
  "be32 a b c d = push_bit 24 (ucast a) OR push_bit 16 (ucast b) OR push_bit 8 (ucast c) OR ucast d"

definition byte32 :: "nat \<Rightarrow> u32 \<Rightarrow> u8" where
  "byte32 k v = ucast (drop_bit (8 * k) v)"

text \<open>\<^verbatim>\<open>binary.BigEndian.Uint16(b)\<close> and \<^verbatim>\<open>Uint32(b)\<close> panic on a slice that is too short.\<close>

definition Uint16 :: "bytes \<Rightarrow> u16 option" where
  "Uint16 b = (if 2 \<le> length b then Some (be16 (b ! 0) (b ! 1)) else None)"

definition Uint32 :: "bytes \<Rightarrow> u32 option" where
  "Uint32 b = (if 4 \<le> length b then Some (be32 (b ! 0) (b ! 1) (b ! 2) (b ! 3)) else None)"

text \<open>\<^verbatim>\<open>binary.BigEndian.PutUint16(b[i:i+2], v)\<close> and \<^verbatim>\<open>PutUint32(b[i:i+4], v)\<close>.\<close>

definition put_u16 :: "bytes \<Rightarrow> nat \<Rightarrow> u16 \<Rightarrow> bytes option" where
  "put_u16 b i v =
     (if i + 2 \<le> length b then Some (b[i := hi8 v, Suc i := lo8 v]) else None)"

definition put_u32 :: "bytes \<Rightarrow> nat \<Rightarrow> u32 \<Rightarrow> bytes option" where
  "put_u32 b i v =
     (if i + 4 \<le> length b
      then Some (b[i := byte32 3 v, i + 1 := byte32 2 v, i + 2 := byte32 1 v, i + 3 := byte32 0 v])
      else None)"

declare Uint16_def [go_defs] Uint32_def [go_defs] put_u16_def [go_defs] put_u32_def [go_defs]

lemma be16_hi_lo [simp]: "be16 (hi8 v) (lo8 v) = v"
  by (rule bit_word_eqI) (auto simp: be16_def hi8_def lo8_def bit_simps)

lemma hi8_be16 [simp]: "hi8 (be16 a b) = a"
  by (rule bit_word_eqI) (auto simp: be16_def hi8_def bit_simps dest: bit_imp_le_length)

lemma lo8_be16 [simp]: "lo8 (be16 a b) = b"
  by (rule bit_word_eqI) (auto simp: be16_def lo8_def bit_simps)

lemma be32_bytes [simp]: "be32 (byte32 3 v) (byte32 2 v) (byte32 1 v) (byte32 0 v) = v"
proof (rule bit_word_eqI)
  fix n assume "n < LENGTH(32)"
  then consider "n < 8" | "8 \<le> n" "n < 16" | "16 \<le> n" "n < 24" | "24 \<le> n" "n < 32"
    by fastforce
  then show "bit (be32 (byte32 3 v) (byte32 2 v) (byte32 1 v) (byte32 0 v)) n = bit v n"
    by cases (auto simp: be32_def byte32_def bit_simps)
qed

lemmas be32_bytes_Suc [simp] = be32_bytes [unfolded One_nat_def]

lemma unat_u8_less [simp]: "unat (b :: u8) < 256"
  using unsigned_less [of b, where ?'a=nat] by simp

lemma unat_be16: "unat (be16 a b) = 256 * unat a + unat b"
proof -
  have "(push_bit 8 (ucast a) :: u16) AND ucast b = 0"
    by (rule bit_word_eqI) (auto simp: bit_simps dest: bit_imp_le_length)
  then have "be16 a b = push_bit 8 (ucast a) + ucast b"
    by (simp add: be16_def disjunctive_add_eq_or)
  then have "unat (be16 a b) = (unat a mod 65536 * 256 mod 65536 + unat b mod 65536) mod 65536"
    by (simp add: push_bit_eq_mult unat_word_ariths unsigned_ucast_eq take_bit_eq_mod)
  also have "\<dots> = 256 * unat a + unat b"
    using unat_u8_less [of a] unat_u8_less [of b] by (simp del: unat_u8_less)
  finally show ?thesis .
qed

section \<open>Lemmas on lists\<close>

lemma length_overwrite [simp]: "length (overwrite b i xs) = length b"
  by (induction xs arbitrary: b i) auto

lemma overwrite_nth:
  "k < length b \<Longrightarrow>
   overwrite b i xs ! k = (if i \<le> k \<and> k < i + length xs then xs ! (k - i) else b ! k)"
  by (induction xs arbitrary: b i) (auto simp: nth_Cons' nth_list_update)

lemma overwrite_eq:
  "i + length xs \<le> length b \<Longrightarrow> overwrite b i xs = take i b @ xs @ drop (i + length xs) b"
proof (induction xs arbitrary: b i)
  case Nil
  then show ?case by simp
next
  case (Cons x xs)
  then have "take (Suc i) (b[i := x]) = take i b @ [x]"
    by (simp add: take_Suc_conv_app_nth)
  with Cons show ?case by simp
qed

lemma list_update_numeral_Cons [simp]:
  "(x # xs)[numeral k := v] = x # xs[pred_numeral k := v]"
  by (simp add: numeral_eq_Suc)

lemma list_update_numeral_append [simp]:
  "numeral k < length xs \<Longrightarrow> (xs @ ys)[numeral k := v] = xs[numeral k := v] @ ys"
  by (rule list_update_append1)

lemma option_eqI: "(\<And>x. a = Some x \<longleftrightarrow> b = Some x) \<Longrightarrow> a = b"
  by (cases a; cases b) auto

text \<open>A buffer of at least \<open>n\<close> bytes is \<open>n\<close> named bytes followed by the rest.\<close>

lemma length_ge_SucE:
  assumes "Suc n \<le> length b"
  obtains x xs where "b = x # xs" and "n \<le> length xs"
  using assms by (cases b) auto

end
