(* ===== verification/Netaddr.thy ===== *)
theory Netaddr
  imports Prelude
begin

text \<open>
  The program keeps its addresses in types of the package \<^verbatim>\<open>inet.af/netaddr\<close>, which is not
  part of the repository. Its address type is the type variable \<open>'ip\<close> and its functions are
  the fields of the record \<open>'ip netaddr\<close>, an argument of every definition that calls them.
  What the program relies on is the predicate \<open>netaddr_laws\<close>: each conjunct is a sentence of
  the package's documentation. \<^verbatim>\<open>netaddr.IPPort\<close>, \<^verbatim>\<open>netaddr.IPPrefix\<close> and
  \<^verbatim>\<open>netaddr.IPSet\<close> are used through their accessors only and are, here, a pair of an address
  and a port, a pair of an address and a bit count, and the membership test of the set.

  The last section gives one concrete address type, \<open>addr\<close>, that satisfies the laws; the
  witnesses of the development evaluate the model on it.
\<close>

section \<open>The interface\<close>

datatype 'ip ipport = IPPort (ipp_IP: 'ip) (ipp_Port: u16)

definition WithIP :: "'ip ipport \<Rightarrow> 'ip \<Rightarrow> 'ip ipport" where
  "WithIP p i = IPPort i (ipp_Port p)"

definition WithPort :: "'ip ipport \<Rightarrow> u16 \<Rightarrow> 'ip ipport" where
  "WithPort p n = IPPort (ipp_IP p) n"

lemma WithIP_sel [simp]: "ipp_IP (WithIP p i) = i" "ipp_Port (WithIP p i) = ipp_Port p"
  by (simp_all add: WithIP_def)

lemma WithPort_sel [simp]: "ipp_IP (WithPort p n) = ipp_IP p" "ipp_Port (WithPort p n) = n"
  by (simp_all add: WithPort_def)

datatype 'ip ipprefix = IPPrefix (pfx_IP: 'ip) (pfx_Bits: u8)

type_synonym 'ip ipset = "'ip \<Rightarrow> bool"

text \<open>\<open>na_As4\<close> is partial: \<^verbatim>\<open>IP.As4\<close> panics on an address that is not IPv4.\<close>

record 'ip netaddr =
  na_zero :: "'ip"
  na_IPv4 :: "u8 \<Rightarrow> u8 \<Rightarrow> u8 \<Rightarrow> u8 \<Rightarrow> 'ip"
  na_IPFrom16 :: "bytes \<Rightarrow> 'ip"
  na_FromStdIP :: "bytes \<Rightarrow> 'ip \<times> bool"
  na_As4 :: "'ip \<Rightarrow> bytes option"
  na_As16 :: "'ip \<Rightarrow> bytes"
  na_Is4 :: "'ip \<Rightarrow> bool"
  na_Is6 :: "'ip \<Rightarrow> bool"
  na_Is4in6 :: "'ip \<Rightarrow> bool"
  na_Zone :: "'ip \<Rightarrow> string"
  na_BitLen :: "'ip \<Rightarrow> u8"
  na_IsMulticast :: "'ip \<Rightarrow> bool"
  na_IsLinkLocalUnicast :: "'ip \<Rightarrow> bool"
  na_Contains :: "'ip ipprefix \<Rightarrow> 'ip \<Rightarrow> bool"
  na_IsSingleIP :: "'ip ipprefix \<Rightarrow> bool"
  na_IsZero :: "'ip \<Rightarrow> bool"

text \<open>An address whose 16-byte form determines it: IPv4, or IPv6 with no zone that is not an
  IPv4-mapped address.\<close>

definition plain_ip :: "'ip netaddr \<Rightarrow> 'ip \<Rightarrow> bool" where
  "plain_ip na i \<longleftrightarrow> na_Is4 na i \<or> na_Is6 na i \<and> \<not> na_Is4in6 na i \<and> na_Zone na i = []"

definition netaddr_laws :: "'ip netaddr \<Rightarrow> bool" where
  "netaddr_laws na \<longleftrightarrow>
     (\<forall>a b c d. na_Is4 na (na_IPv4 na a b c d) \<and> na_As4 na (na_IPv4 na a b c d) = Some [a, b, c, d]) \<and>
     (\<forall>i. na_Is4 na i \<longrightarrow> (\<exists>a b c d. i = na_IPv4 na a b c d)) \<and>
     (\<forall>i. \<not> (na_Is4 na i \<and> na_Is6 na i)) \<and>
     (\<forall>i. length (na_As16 na i) = 16) \<and>
     (\<forall>i. plain_ip na i \<longrightarrow> na_IPFrom16 na (na_As16 na i) = i) \<and>
     (\<forall>i. plain_ip na i \<longrightarrow> na_FromStdIP na (na_As16 na i) = (i, True)) \<and>
     (\<forall>p i. na_Contains na p i \<longrightarrow>
        na_Is4 na (pfx_IP p) = na_Is4 na i \<and> na_Is6 na (pfx_IP p) = na_Is6 na i)"

text \<open>What the program relies on of prefixes: a prefix of one address contains that address only, an
  IPv4 prefix contains the IPv4 addresses that agree with it on its bits, and 16 bytes that are not an
  IPv4-mapped address are the 16-byte form of the address made from them.\<close>

definition prefix_laws :: "'ip netaddr \<Rightarrow> bool" where
  "prefix_laws na \<longleftrightarrow>
     (\<forall>p i. na_IsSingleIP na p \<and> plain_ip na (pfx_IP p) \<longrightarrow> na_Contains na p i = (i = pfx_IP p)) \<and>
     (\<forall>a b c d n a' b' c' d'. unat n \<le> 32 \<longrightarrow>
        na_Contains na (IPPrefix (na_IPv4 na a b c d) n) (na_IPv4 na a' b' c' d') =
        (drop_bit (32 - unat n) (be32 a b c d) = drop_bit (32 - unat n) (be32 a' b' c' d'))) \<and>
     (\<forall>b. length b = 16 \<and> take 12 b \<noteq> replicate 10 0 @ [255, 255] \<longrightarrow>
        na_Is6 na (na_IPFrom16 na b) \<and> na_As16 na (na_IPFrom16 na b) = b)"

named_theorems netaddr_rules
  \<open>consequences of \<open>netaddr_laws\<close>\<close>

lemma Is4_IPv4 [netaddr_rules]: "netaddr_laws na \<Longrightarrow> na_Is4 na (na_IPv4 na a b c d)"
  by (simp add: netaddr_laws_def)

lemma As4_IPv4 [netaddr_rules]:
  "netaddr_laws na \<Longrightarrow> na_As4 na (na_IPv4 na a b c d) = Some [a, b, c, d]"
  by (simp add: netaddr_laws_def)

lemma Is4E:
  assumes "netaddr_laws na" "na_Is4 na i"
  obtains a b c d where "i = na_IPv4 na a b c d"
  using assms unfolding netaddr_laws_def by metis

lemma not_Is4_and_Is6: "netaddr_laws na \<Longrightarrow> na_Is4 na i \<Longrightarrow> \<not> na_Is6 na i"
  by (simp add: netaddr_laws_def)

lemma length_As16 [netaddr_rules]: "netaddr_laws na \<Longrightarrow> length (na_As16 na i) = 16"
  by (simp add: netaddr_laws_def)

lemma IPFrom16_As16 [netaddr_rules]:
  "netaddr_laws na \<Longrightarrow> plain_ip na i \<Longrightarrow> na_IPFrom16 na (na_As16 na i) = i"
  by (simp add: netaddr_laws_def)

lemma FromStdIP_As16 [netaddr_rules]:
  "netaddr_laws na \<Longrightarrow> plain_ip na i \<Longrightarrow> na_FromStdIP na (na_As16 na i) = (i, True)"
  by (simp add: netaddr_laws_def)

lemma Contains_family:
  "netaddr_laws na \<Longrightarrow> na_Contains na p i \<Longrightarrow>
   na_Is4 na (pfx_IP p) = na_Is4 na i \<and> na_Is6 na (pfx_IP p) = na_Is6 na i"
  by (simp add: netaddr_laws_def)

section \<open>A concrete address type\<close>

text \<open>
  IPv4 addresses as four bytes, IPv6 addresses as four 32-bit groups and a zone, and the zero
  value. \<^verbatim>\<open>IPFrom16\<close> and \<^verbatim>\<open>FromStdIP\<close> unmap IPv4-mapped addresses.
\<close>

datatype addr = ZeroIP | V4 u8 u8 u8 u8 | V6 u32 u32 u32 u32 string

definition bytes32 :: "u32 \<Rightarrow> bytes" where
  "bytes32 v = [byte32 3 v, byte32 2 v, byte32 1 v, byte32 0 v]"

definition group32 :: "bytes \<Rightarrow> nat \<Rightarrow> u32" where
  "group32 b k = be32 (b ! (4 * k)) (b ! (4 * k + 1)) (b ! (4 * k + 2)) (b ! (4 * k + 3))"

definition addr_from16 :: "bytes \<Rightarrow> addr" where
  "addr_from16 b =
     (if group32 b 0 = 0 \<and> group32 b 1 = 0 \<and> group32 b 2 = 0xFFFF
      then V4 (b ! 12) (b ! 13) (b ! 14) (b ! 15)
      else V6 (group32 b 0) (group32 b 1) (group32 b 2) (group32 b 3) [])"

fun addr_as16 :: "addr \<Rightarrow> bytes" where
  "addr_as16 ZeroIP = replicate 16 0"
| "addr_as16 (V4 a b c d) = [0, 0, 0, 0, 0, 0, 0, 0, 0, 0, 255, 255, a, b, c, d]"
| "addr_as16 (V6 p q r s z) = bytes32 p @ bytes32 q @ bytes32 r @ bytes32 s"

fun addr_as4 :: "addr \<Rightarrow> bytes option" where
  "addr_as4 (V4 a b c d) = Some [a, b, c, d]"
| "addr_as4 (V6 p q r s z) = (if p = 0 \<and> q = 0 \<and> r = 0xFFFF then Some (bytes32 s) else None)"
| "addr_as4 ZeroIP = None"

fun addr_is4 :: "addr \<Rightarrow> bool" where
  "addr_is4 (V4 a b c d) = True"
| "addr_is4 _ = False"

fun addr_is6 :: "addr \<Rightarrow> bool" where
  "addr_is6 (V6 p q r s z) = True"
| "addr_is6 _ = False"

fun addr_is4in6 :: "addr \<Rightarrow> bool" where
  "addr_is4in6 (V6 p q r s z) = (p = 0 \<and> q = 0 \<and> r = 0xFFFF)"
| "addr_is4in6 _ = False"

fun addr_zone :: "addr \<Rightarrow> string" where
  "addr_zone (V6 p q r s z) = z"
| "addr_zone _ = []"

fun addr_bitlen :: "addr \<Rightarrow> u8" where
  "addr_bitlen (V4 a b c d) = 32"
| "addr_bitlen (V6 p q r s z) = 128"
| "addr_bitlen ZeroIP = 0"

fun addr_multicast :: "addr \<Rightarrow> bool" where
  "addr_multicast (V4 a b c d) = (a AND 0xF0 = 0xE0)"
| "addr_multicast (V6 p q r s z) = (byte32 3 p = 0xFF)"
| "addr_multicast ZeroIP = False"

fun addr_linklocal :: "addr \<Rightarrow> bool" where
  "addr_linklocal (V4 a b c d) = (a = 169 \<and> b = 254)"
| "addr_linklocal (V6 p q r s z) = (drop_bit 22 p = 0x3FA)"
| "addr_linklocal ZeroIP = False"

text \<open>Whether the first \<open>n\<close> bits of two lists of 32-bit groups agree.\<close>

fun same_bits :: "nat \<Rightarrow> u32 list \<Rightarrow> u32 list \<Rightarrow> bool" where
  "same_bits n (x # xs) (y # ys) =
     (if n < 32 then drop_bit (32 - n) x = drop_bit (32 - n) y
      else x = y \<and> same_bits (n - 32) xs ys)"
| "same_bits n _ _ = True"

fun addr_contains :: "addr ipprefix \<Rightarrow> addr \<Rightarrow> bool" where
  "addr_contains (IPPrefix (V4 a b c d) n) (V4 a' b' c' d') =
     (unat n \<le> 32 \<and> same_bits (unat n) [be32 a b c d] [be32 a' b' c' d'])"
| "addr_contains (IPPrefix (V6 p q r s z) n) (V6 p' q' r' s' z') =
     (unat n \<le> 128 \<and> z' = [] \<and> same_bits (unat n) [p, q, r, s] [p', q', r', s'])"
| "addr_contains _ _ = False"

definition addr_single :: "addr ipprefix \<Rightarrow> bool" where
  "addr_single p \<longleftrightarrow> pfx_Bits p \<noteq> 0 \<and> pfx_Bits p = addr_bitlen (pfx_IP p)"

definition addr_netaddr :: "addr netaddr" where
  "addr_netaddr =
     \<lparr>na_zero = ZeroIP, na_IPv4 = V4, na_IPFrom16 = addr_from16,
      na_FromStdIP = (\<lambda>b. if length b = 16 then (addr_from16 b, True)
                            else if length b = 4 then (V4 (b ! 0) (b ! 1) (b ! 2) (b ! 3), True)
                            else (ZeroIP, False)),
      na_As4 = addr_as4, na_As16 = addr_as16, na_Is4 = addr_is4, na_Is6 = addr_is6,
      na_Is4in6 = addr_is4in6, na_Zone = addr_zone, na_BitLen = addr_bitlen,
      na_IsMulticast = addr_multicast, na_IsLinkLocalUnicast = addr_linklocal,
      na_Contains = addr_contains, na_IsSingleIP = addr_single, na_IsZero = (\<lambda>i. i = ZeroIP)\<rparr>"

lemma group32_as16 [simp]:
  "group32 (bytes32 p @ bytes32 q @ bytes32 r @ bytes32 s) 0 = p"
  "group32 (bytes32 p @ bytes32 q @ bytes32 r @ bytes32 s) (Suc 0) = q"
  "group32 (bytes32 p @ bytes32 q @ bytes32 r @ bytes32 s) 2 = r"
  "group32 (bytes32 p @ bytes32 q @ bytes32 r @ bytes32 s) 3 = s"
  by (simp_all add: group32_def bytes32_def)

lemma addr_from16_as16:
  "addr_is4 i \<or> addr_is6 i \<and> \<not> addr_is4in6 i \<and> addr_zone i = [] \<Longrightarrow>
   addr_from16 (addr_as16 i) = i"
  by (cases i) (simp_all add: addr_from16_def, simp add: group32_def be32_def)

lemma length_addr_as16 [simp]: "length (addr_as16 i) = 16"
  by (cases i) (simp_all add: bytes32_def)

lemma addr_contains_family:
  "addr_contains p i \<Longrightarrow> addr_is4 (pfx_IP p) = addr_is4 i \<and> addr_is6 (pfx_IP p) = addr_is6 i"
  by (cases "(p, i)" rule: addr_contains.cases) auto

lemma addr_netaddr_sel [simp]:
  "na_zero addr_netaddr = ZeroIP" "na_IPv4 addr_netaddr = V4" "na_IPFrom16 addr_netaddr = addr_from16"
  "na_As4 addr_netaddr = addr_as4" "na_As16 addr_netaddr = addr_as16"
  "na_Is4 addr_netaddr = addr_is4" "na_Is6 addr_netaddr = addr_is6"
  "na_Is4in6 addr_netaddr = addr_is4in6" "na_Zone addr_netaddr = addr_zone"
  "na_BitLen addr_netaddr = addr_bitlen" "na_IsMulticast addr_netaddr = addr_multicast"
  "na_IsLinkLocalUnicast addr_netaddr = addr_linklocal" "na_Contains addr_netaddr = addr_contains"
  "na_IsSingleIP addr_netaddr = addr_single" "na_IsZero addr_netaddr = (\<lambda>i. i = ZeroIP)"
  by (simp_all add: addr_netaddr_def)

theorem netaddr_laws_addr [simp]: "netaddr_laws addr_netaddr"
  unfolding netaddr_laws_def plain_ip_def addr_netaddr_def
  using addr_contains_family addr_from16_as16
  by (auto elim: addr_is4.elims dest: addr_is4.elims(2))

lemma same_bits_one: "n \<le> 32 \<Longrightarrow> same_bits n [x] [y] \<longleftrightarrow> drop_bit (32 - n) x = drop_bit (32 - n) y"
  by auto

lemma addr_contains_v4:
  "unat n \<le> 32 \<Longrightarrow> addr_contains (IPPrefix (V4 a b c d) n) (V4 a' b' c' d') =
     (drop_bit (32 - unat n) (be32 a b c d) = drop_bit (32 - unat n) (be32 a' b' c' d'))"
  using same_bits_one [of "unat n"] by simp

lemma byte32_be32 [simp]:
  "byte32 3 (be32 a b c d) = a" "byte32 2 (be32 a b c d) = b" "byte32 1 (be32 a b c d) = c" "byte32 (Suc 0) (be32 a b c d) = c"
  "byte32 0 (be32 a b c d) = d"
  by (rule bit_word_eqI; auto simp: be32_def byte32_def bit_simps dest: bit_imp_le_length)+

lemma be32_inject: "be32 a b c d = be32 a' b' c' d' \<longleftrightarrow> a = a' \<and> b = b' \<and> c = c' \<and> d = d'"
  by (metis byte32_be32)

lemma addr_single_contains:
  assumes "addr_single p" "addr_is4 (pfx_IP p) \<or> addr_is6 (pfx_IP p) \<and> addr_zone (pfx_IP p) = []"
  shows "addr_contains p i \<longleftrightarrow> i = pfx_IP p"
proof (cases p)
  case (IPPrefix j n)
  show ?thesis
  proof (cases j)
    case (V4 a b c d)
    then have "n = 32" using assms(1) by (simp add: IPPrefix addr_single_def)
    then show ?thesis
      by (cases i) (auto simp: IPPrefix V4 be32_inject)
  next
    case (V6 a b c d z)
    then have "n = 128" "z = []" using assms by (simp_all add: IPPrefix addr_single_def)
    then show ?thesis by (cases i) (auto simp: IPPrefix V6)
  next
    case ZeroIP
    then show ?thesis using assms by (simp add: IPPrefix)
  qed
qed

lemma addr_from16_v6:
  assumes "length b = 16" "take 12 b \<noteq> replicate 10 0 @ [255, 255]"
  shows "addr_is6 (addr_from16 b) \<and> addr_as16 (addr_from16 b) = b"
proof -
  obtain b0 b1 b2 b3 b4 b5 b6 b7 b8 b9 b10 b11 b12 b13 b14 b15 where
    b: "b = [b0, b1, b2, b3, b4, b5, b6, b7, b8, b9, b10, b11, b12, b13, b14, b15]"
    using assms(1) by (auto simp: numeral_eq_Suc length_Suc_conv)
  have z: "be32 0 0 0 0 = 0" "be32 0 0 255 255 = 0xFFFF" by code_simp+
  have g: "group32 b 0 = be32 b0 b1 b2 b3" "group32 b (Suc 0) = be32 b4 b5 b6 b7"
    "group32 b 2 = be32 b8 b9 b10 b11" "group32 b 3 = be32 b12 b13 b14 b15"
    by (simp_all add: group32_def b)
  have "\<not> (group32 b 0 = 0 \<and> group32 b (Suc 0) = 0 \<and> group32 b 2 = 0xFFFF)"
    unfolding g using assms(2) be32_inject [of b0 b1 b2 b3 0 0 0 0] be32_inject [of b4 b5 b6 b7 0 0 0 0]
      be32_inject [of b8 b9 b10 b11 0 0 255 255]
    unfolding z by (auto simp: b numeral_eq_Suc)
  then show ?thesis
    by (simp add: addr_from16_def g bytes32_def) (simp add: b)
qed

theorem prefix_laws_addr [simp]: "prefix_laws addr_netaddr"
  unfolding prefix_laws_def plain_ip_def
  using addr_single_contains addr_contains_v4 addr_from16_v6 by auto

end
