(* ===== verification/Flowtrack.thy ===== *)
theory Flowtrack
  imports Netaddr "HOL-Library.AList"
begin

text \<open>
  The flow cache of \<^verbatim>\<open>net/flowtrack/flowtrack.go\<close>: a least-recently-used cache made of a
  doubly linked list (\<^verbatim>\<open>container/list\<close>) of entries and a map from flow tuples to list elements.

  A list element is an address; the list is the sequence of its elements, front first, each
  with the entry it holds, and the map sends a tuple to an address, so that the map and the list
  can disagree. \<open>cache_inv\<close> says that they do not. The contract of the cache is the locale
  \<open>lru_cache\<close>, over the list of key-value pairs in order of last use; the cache of the source
  is an interpretation of it.
\<close>

section \<open>Data\<close>

datatype 'ip tuple = Tuple (t_Proto: u8) (t_Src: "'ip ipport") (t_Dst: "'ip ipport")

record ('ip, 'v) entry =
  e_key :: "'ip tuple"
  e_value :: 'v

text \<open>\<open>c_ll\<close> and \<open>c_m\<close> are \<open>None\<close> where the source has nil; \<open>c_next\<close> is the next fresh
  address of the allocator.\<close>

record ('ip, 'v) cache =
  MaxEntries :: int
  c_ll :: "(nat \<times> ('ip, 'v) entry) list option"
  c_m :: "('ip tuple \<times> nat) list option"
  c_next :: nat

definition new_cache :: "int \<Rightarrow> ('ip, 'v) cache" where
  "new_cache n = \<lparr>MaxEntries = n, c_ll = None, c_m = None, c_next = 0\<rparr>"

section \<open>The list and map primitives\<close>

text \<open>\<^verbatim>\<open>MoveToFront\<close>, \<^verbatim>\<open>PushFront\<close>, \<^verbatim>\<open>Remove\<close> and \<^verbatim>\<open>Back\<close> of
  \<^verbatim>\<open>container/list\<close>; an address that is not in the list leaves it as it is.\<close>

fun ll_elems :: "('ip, 'v) cache \<Rightarrow> (nat \<times> ('ip, 'v) entry) list" where
  "ll_elems c = (case c_ll c of None \<Rightarrow> [] | Some l \<Rightarrow> l)"

definition MoveToFront :: "('ip, 'v) cache \<Rightarrow> nat \<Rightarrow> ('ip, 'v) cache" where
  "MoveToFront c e =
     (case map_of (ll_elems c) e of
        None \<Rightarrow> c
      | Some en \<Rightarrow> c\<lparr>c_ll := Some ((e, en) # AList.delete e (ll_elems c))\<rparr>)"

definition PushFront :: "('ip, 'v) cache \<Rightarrow> ('ip, 'v) entry \<Rightarrow> nat \<times> ('ip, 'v) cache" where
  "PushFront c en =
     (c_next c, c\<lparr>c_ll := Some ((c_next c, en) # ll_elems c), c_next := Suc (c_next c)\<rparr>)"

definition set_entry_value :: "('ip, 'v) cache \<Rightarrow> nat \<Rightarrow> 'v \<Rightarrow> ('ip, 'v) cache" where
  "set_entry_value c e v =
     c\<lparr>c_ll := map_option (map (\<lambda>(a, en). (a, if a = e then en\<lparr>e_value := v\<rparr> else en))) (c_ll c)\<rparr>"

text \<open>A lookup in a nil map finds nothing.\<close>

definition m_lookup :: "('ip, 'v) cache \<Rightarrow> 'ip tuple \<Rightarrow> nat option" where
  "m_lookup c key = (case c_m c of None \<Rightarrow> None | Some m \<Rightarrow> map_of m key)"

section \<open>Operations\<close>

definition Len :: "('ip, 'v) cache \<Rightarrow> nat" where
  "Len c = (case c_m c of None \<Rightarrow> 0 | Some m \<Rightarrow> length m)"

definition removeElement :: "('ip, 'v) cache \<Rightarrow> nat \<Rightarrow> ('ip, 'v) cache" where
  "removeElement c e =
     (case map_of (ll_elems c) e of
        None \<Rightarrow> c
      | Some en \<Rightarrow>
          c\<lparr>c_ll := Some (AList.delete e (ll_elems c)),
             c_m := map_option (AList.delete (e_key en)) (c_m c)\<rparr>)"

definition RemoveOldest :: "('ip, 'v) cache \<Rightarrow> ('ip, 'v) cache" where
  "RemoveOldest c =
     (case c_ll c of
        None \<Rightarrow> c
      | Some l \<Rightarrow> if l = [] then c else removeElement c (fst (last l)))"

definition Remove :: "('ip, 'v) cache \<Rightarrow> 'ip tuple \<Rightarrow> ('ip, 'v) cache" where
  "Remove c key = (case m_lookup c key of None \<Rightarrow> c | Some e \<Rightarrow> removeElement c e)"

definition Get :: "('ip, 'v) cache \<Rightarrow> 'ip tuple \<Rightarrow> 'v option \<times> ('ip, 'v) cache" where
  "Get c key =
     (case m_lookup c key of
        None \<Rightarrow> (None, c)
      | Some e \<Rightarrow> (map_option e_value (map_of (ll_elems c) e), MoveToFront c e))"

definition Add :: "('ip, 'v) cache \<Rightarrow> 'ip tuple \<Rightarrow> 'v \<Rightarrow> ('ip, 'v) cache" where
  "Add c key v =
     (let c = (if c_m c = None then c\<lparr>c_m := Some [], c_ll := Some []\<rparr> else c)
      in case m_lookup c key of
           Some ee \<Rightarrow> set_entry_value (MoveToFront c ee) ee v
         | None \<Rightarrow>
             (let (ele, c) = PushFront c \<lparr>e_key = key, e_value = v\<rparr>;
                  c = c\<lparr>c_m := map_option (AList.update key ele) (c_m c)\<rparr>
              in if MaxEntries c \<noteq> 0 \<and> MaxEntries c < int (Len c) then RemoveOldest c else c))"

section \<open>The specification: pairs in order of last use\<close>

definition lru_touch :: "('k \<times> 'v) list \<Rightarrow> 'k \<Rightarrow> ('k \<times> 'v) list" where
  "lru_touch xs k =
     (case map_of xs k of None \<Rightarrow> xs | Some v \<Rightarrow> (k, v) # AList.delete k xs)"

definition lru_add :: "int \<Rightarrow> ('k \<times> 'v) list \<Rightarrow> 'k \<Rightarrow> 'v \<Rightarrow> ('k \<times> 'v) list" where
  "lru_add n xs k v =
     (let ys = (k, v) # AList.delete k xs
      in if map_of xs k = None \<and> n \<noteq> 0 \<and> n < int (length ys) then butlast ys else ys)"

section \<open>Invariant and abstraction\<close>

definition entry_kv :: "nat \<times> ('ip, 'v) entry \<Rightarrow> 'ip tuple \<times> 'v" where
  "entry_kv x = (e_key (snd x), e_value (snd x))"

definition cache_abs :: "('ip, 'v) cache \<Rightarrow> ('ip tuple \<times> 'v) list" where
  "cache_abs c = map entry_kv (ll_elems c)"

definition cache_inv :: "('ip, 'v) cache \<Rightarrow> bool" where
  "cache_inv c \<longleftrightarrow>
     (c_m c = None \<longleftrightarrow> c_ll c = None) \<and>
     distinct (map fst (ll_elems c)) \<and>
     distinct (map (e_key \<circ> snd) (ll_elems c)) \<and>
     distinct (map fst (case c_m c of None \<Rightarrow> [] | Some m \<Rightarrow> m)) \<and>
     Len c = length (ll_elems c) \<and>
     (\<forall>k e. m_lookup c k = Some e \<longleftrightarrow> (\<exists>en. (e, en) \<in> set (ll_elems c) \<and> e_key en = k)) \<and>
     (\<forall>x \<in> set (ll_elems c). fst x < c_next c)"

lemma entry_kv_key: "fst \<circ> entry_kv = e_key \<circ> snd"
  by (auto simp: entry_kv_def)

lemma same_entry:
  assumes "distinct (map f xs)" and "x \<in> set xs" and "y \<in> set xs"
  shows "f x = f y \<longleftrightarrow> x = y"
  using assms by (auto simp: distinct_map dest: inj_onD)

lemma alist_delete_filter: "AList.delete k xs = filter (\<lambda>x. fst x \<noteq> k) xs"
  unfolding AList.delete_eq by (rule filter_cong) auto

lemma set_alist_delete: "set (AList.delete k xs) = {x \<in> set xs. fst x \<noteq> k}"
  by (simp add: alist_delete_filter)

text \<open>Deleting an element by address deletes its pair by key.\<close>

lemma delete_entry_kv:
  assumes "distinct (map fst l)" and "distinct (map (e_key \<circ> snd) l)" and "(e, en) \<in> set l"
  shows "map entry_kv (AList.delete e l) = AList.delete (e_key en) (map entry_kv l)"
proof -
  have "fst x \<noteq> e \<longleftrightarrow> e_key (snd x) \<noteq> e_key en" if "x \<in> set l" for x
    using same_entry [OF assms(1) that assms(3)] same_entry [OF assms(2) that assms(3)] by auto
  then have "filter (\<lambda>x. fst x \<noteq> e) l = filter (\<lambda>x. e_key (snd x) \<noteq> e_key en) l"
    by (simp cong: filter_cong)
  then show ?thesis
    by (simp add: alist_delete_filter filter_map comp_def entry_kv_def)
qed

lemma map_of_entry_kv:
  assumes "distinct (map (e_key \<circ> snd) l)" and "(e, en) \<in> set l"
  shows "map_of (map entry_kv l) (e_key en) = Some (e_value en)"
proof (rule map_of_is_SomeI)
  show "distinct (map fst (map entry_kv l))"
    using assms(1) by (simp add: entry_kv_key)
  show "(e_key en, e_value en) \<in> set (map entry_kv l)"
    using assms(2) by (force simp: entry_kv_def)
qed

lemma map_of_entry_kv_None:
  "map_of (map entry_kv l) k = None \<longleftrightarrow> (\<forall>x \<in> set l. e_key (snd x) \<noteq> k)"
  by (auto simp: map_of_eq_None_iff entry_kv_def image_iff)

lemma cache_invD:
  assumes "cache_inv c"
  shows "distinct (map fst (ll_elems c))" "distinct (map (e_key \<circ> snd) (ll_elems c))"
    "Len c = length (ll_elems c)" "c_m c = None \<longleftrightarrow> c_ll c = None"
    "\<And>k e. m_lookup c k = Some e \<longleftrightarrow> (\<exists>en. (e, en) \<in> set (ll_elems c) \<and> e_key en = k)"
    "\<And>x. x \<in> set (ll_elems c) \<Longrightarrow> fst x < c_next c"
  using assms unfolding cache_inv_def by blast+

text \<open>The invariant once the list and the map exist, over their contents.\<close>

lemma cache_invI:
  assumes "c_ll c = Some l" and "c_m c = Some m"
    and "distinct (map fst l)" and "distinct (map (e_key \<circ> snd) l)" and "distinct (map fst m)"
    and "length m = length l"
    and "\<And>k e. map_of m k = Some e \<longleftrightarrow> (\<exists>en. (e, en) \<in> set l \<and> e_key en = k)"
    and "\<And>x. x \<in> set l \<Longrightarrow> fst x < c_next c"
  shows "cache_inv c"
  using assms unfolding cache_inv_def by (simp add: Len_def m_lookup_def)

lemma cache_inv_SomeE:
  assumes "cache_inv c" and "x \<in> set (ll_elems c)"
  obtains m where "c_ll c = Some (ll_elems c)" "c_m c = Some m" "distinct (map fst m)"
    "length m = length (ll_elems c)" "m_lookup c = map_of m"
  using assms unfolding cache_inv_def
  by (cases "c_m c"; cases "c_ll c") (auto simp: Len_def m_lookup_def fun_eq_iff)

lemma m_lookup_SomeE:
  assumes "cache_inv c" "m_lookup c k = Some e"
  obtains en where "(e, en) \<in> set (ll_elems c)" "e_key en = k" "map_of (ll_elems c) e = Some en"
  using assms cache_invD(1,5) [OF assms(1)] by (metis map_of_is_SomeI)

lemma m_lookup_None:
  assumes "cache_inv c"
  shows "m_lookup c k = None \<longleftrightarrow> map_of (cache_abs c) k = None"
  using cache_invD(5) [OF assms, of k]
  unfolding cache_abs_def map_of_entry_kv_None
  by (metis not_None_eq prod.collapse snd_conv)

lemma cache_inv_new: "cache_inv (new_cache n)"
  by (simp add: cache_inv_def new_cache_def Len_def m_lookup_def)

lemma cache_abs_new [simp]: "cache_abs (new_cache n) = []"
  by (simp add: cache_abs_def new_cache_def)

lemma MaxEntries_new [simp]: "MaxEntries (new_cache n) = n"
  by (simp add: new_cache_def)

section \<open>Every operation keeps the invariant and implements the specification\<close>

lemma ll_elems_Some [simp]: "ll_elems (c\<lparr>c_ll := Some l\<rparr>) = l"
  by simp

lemma m_lookup_ll [simp]: "m_lookup (c\<lparr>c_ll := l\<rparr>) = m_lookup c"
  by (simp add: m_lookup_def fun_eq_iff)

lemma Len_ll [simp]: "Len (c\<lparr>c_ll := l\<rparr>) = Len c"
  by (simp add: Len_def)

declare ll_elems.simps [simp del]

lemma MoveToFront_eq:
  assumes "map_of (ll_elems c) e = Some en"
  shows "MoveToFront c e = c\<lparr>c_ll := Some ((e, en) # AList.delete e (ll_elems c))\<rparr>"
  using assms by (simp add: MoveToFront_def)

lemma set_move_to_front:
  assumes "distinct (map fst l)" and "(e, en) \<in> set l"
  shows "set ((e, en) # AList.delete e l) = set l"
  using assms same_entry [OF assms(1) _ assms(2)] by (auto simp: alist_delete_filter)

lemma length_delete_mem:
  assumes "distinct (map fst l)" and "(e, en) \<in> set l"
  shows "Suc (length (AList.delete e l)) = length l"
proof -
  have "distinct l" "distinct (AList.delete e l)"
    using assms(1) by (auto simp: distinct_map alist_delete_filter)
  moreover have "(e, en) \<notin> set (AList.delete e l)"
    by (simp add: alist_delete_filter)
  ultimately show ?thesis
    using set_move_to_front [OF assms]
    by (metis card_distinct distinct.simps(2) distinct_card length_Cons)
qed

lemma distinct_move_to_front:
  assumes "distinct (map f l)" and "set (x # AList.delete e l) = set l" and "fst x = e"
  shows "distinct (map f (x # AList.delete e l))"
proof -
  have "distinct (x # AList.delete e l)"
    using assms(1,3) by (auto simp: distinct_map alist_delete_filter)
  then show ?thesis
    using assms(1,2) unfolding distinct_map by metis
qed

lemma MoveToFront_inv:
  assumes inv: "cache_inv c" and l: "m_lookup c k = Some e"
  shows "cache_inv (MoveToFront c e)"
proof -
  obtain en where en: "(e, en) \<in> set (ll_elems c)" "map_of (ll_elems c) e = Some en"
    using m_lookup_SomeE [OF inv l] .
  obtain m where m: "c_ll c = Some (ll_elems c)" "c_m c = Some m" "distinct (map fst m)"
    "length m = length (ll_elems c)" "m_lookup c = map_of m"
    using cache_inv_SomeE [OF inv en(1)] .
  let ?l = "(e, en) # AList.delete e (ll_elems c)"
  note d = cache_invD [OF inv]
  have s: "set ?l = set (ll_elems c)"
    using set_move_to_front [OF d(1) en(1)] .
  show ?thesis
    unfolding MoveToFront_eq [OF en(2)]
  proof (rule cache_invI [where l = ?l and m = m])
    show "distinct (map fst ?l)" "distinct (map (e_key \<circ> snd) ?l)"
      using d(1,2) s by (simp_all only: distinct_move_to_front fst_conv)
    show "length m = length ?l"
      using length_delete_mem [OF d(1) en(1)] m(4) by simp
    show "map_of m k = Some a \<longleftrightarrow> (\<exists>en. (a, en) \<in> set ?l \<and> e_key en = k)" for k a
      using d(5) unfolding s m(5) .
    show "fst x < c_next (c\<lparr>c_ll := Some ?l\<rparr>)" if "x \<in> set ?l" for x
      using d(6) [of x] that unfolding s by simp
  qed (use m in simp_all)
qed

lemma MoveToFront_abs:
  assumes inv: "cache_inv c" and l: "m_lookup c k = Some e"
  shows "cache_abs (MoveToFront c e) = lru_touch (cache_abs c) k"
proof -
  obtain en where en: "(e, en) \<in> set (ll_elems c)" "e_key en = k" "map_of (ll_elems c) e = Some en"
    using m_lookup_SomeE [OF inv l] .
  note d = cache_invD [OF inv]
  show ?thesis
    using delete_entry_kv [OF d(1,2) en(1)] map_of_entry_kv [OF d(2) en(1)] en(2)
    by (simp add: MoveToFront_eq [OF en(3)] cache_abs_def lru_touch_def entry_kv_def)
qed

lemma distinct_delete: "distinct (map f l) \<Longrightarrow> distinct (map f (AList.delete e l))"
  by (simp add: alist_delete_filter distinct_map_filter)

lemma removeElement_inv:
  assumes inv: "cache_inv c" and en: "(e, en) \<in> set (ll_elems c)"
  shows "cache_inv (removeElement c e)"
    and "cache_abs (removeElement c e) = AList.delete (e_key en) (cache_abs c)"
proof -
  note d = cache_invD [OF inv]
  obtain m where m: "c_ll c = Some (ll_elems c)" "c_m c = Some m" "distinct (map fst m)"
    "length m = length (ll_elems c)" "m_lookup c = map_of m"
    using cache_inv_SomeE [OF inv en] .
  have mem: "(e_key en, e) \<in> set m"
    using d(5) en by (simp add: m(5)) (metis map_of_SomeD)
  let ?l = "AList.delete e (ll_elems c)" and ?m = "AList.delete (e_key en) m"
  have "map_of (ll_elems c) e = Some en"
    using d(1) en by (rule map_of_is_SomeI)
  then have eq: "removeElement c e = c\<lparr>c_ll := Some ?l, c_m := Some ?m\<rparr>"
    by (simp add: removeElement_def m(2))
  have same: "e_key (snd x) = e_key en \<longleftrightarrow> fst x = e" if "x \<in> set (ll_elems c)" for x
    using same_entry [OF d(1) that en] same_entry [OF d(2) that en] by auto
  show "cache_inv (removeElement c e)"
    unfolding eq
  proof (rule cache_invI [where l = ?l and m = ?m])
    show "length ?m = length ?l"
      using length_delete_mem [OF d(1) en] length_delete_mem [OF m(3) mem] m(4) by simp
    show "map_of ?m k = Some a \<longleftrightarrow> (\<exists>en. (a, en) \<in> set ?l \<and> e_key en = k)" for k a
      using d(5) [of k a] same [of "(a, _)"]
      by (cases "k = e_key en") (auto simp: m(5) delete_conv' set_alist_delete)
    show "fst x < c_next (c\<lparr>c_ll := Some ?l, c_m := Some ?m\<rparr>)" if "x \<in> set ?l" for x
      using that d(6) [of x] by (simp add: alist_delete_filter)
  qed (use d m(3) in \<open>simp_all add: distinct_delete\<close>)
  show "cache_abs (removeElement c e) = AList.delete (e_key en) (cache_abs c)"
    using delete_entry_kv [OF d(1,2) en] by (simp add: cache_abs_def eq ll_elems.simps)
qed

lemma AList_update_fresh: "map_of m k = None \<Longrightarrow> AList.update k a m = m @ [(k, a)]"
  by (induction m) (auto split: if_splits)

lemma insert_inv:
  fixes c :: "('ip, 'v) cache" and key :: "'ip tuple" and v :: 'v
  defines "c1 \<equiv> c\<lparr>c_ll := Some ((c_next c, \<lparr>e_key = key, e_value = v\<rparr>) # ll_elems c),
                    c_next := Suc (c_next c), c_m := map_option (AList.update key (c_next c)) (c_m c)\<rparr>"
  assumes inv: "cache_inv c" and m: "c_m c = Some m" and new: "m_lookup c key = None"
  shows "cache_inv c1" and "cache_abs c1 = (key, v) # cache_abs c"
proof -
  note d = cache_invD [OF inv]
  let ?e = "(c_next c, \<lparr>e_key = key, e_value = v\<rparr>)"
  have dm: "distinct (map fst m)" and lm: "length m = length (ll_elems c)" and look: "m_lookup c = map_of m"
    using inv m by (auto simp: cache_inv_def Len_def m_lookup_def fun_eq_iff)
  have fresh: "c_next c \<notin> fst ` set (ll_elems c)"
    using d(6) by fastforce
  have newkey: "key \<notin> (e_key \<circ> snd) ` set (ll_elems c)"
    using new m_lookup_None [OF inv, of key] by (auto simp: cache_abs_def map_of_entry_kv_None)
  show "cache_inv c1"
  proof (rule cache_invI [where l = "?e # ll_elems c" and m = "AList.update key (c_next c) m"])
    show "length (AList.update key (c_next c) m) = length (?e # ll_elems c)"
      using new lm by (simp add: look AList_update_fresh)
    show "map_of (AList.update key (c_next c) m) k = Some a \<longleftrightarrow>
          (\<exists>en. (a, en) \<in> set (?e # ll_elems c) \<and> e_key en = k)" for k a
      using d(5) [of k a] fresh newkey
      by (auto simp: look update_conv' image_iff)
    show "fst x < c_next c1" if "x \<in> set (?e # ll_elems c)" for x
      using that d(6) [of x] by (auto simp: c1_def)
  qed (use d(1,2) dm fresh newkey m in \<open>simp_all add: c1_def distinct_update\<close>)
  show "cache_abs c1 = (key, v) # cache_abs c"
    by (simp add: c1_def cache_abs_def ll_elems.simps entry_kv_def)
qed

lemma RemoveOldest_inv:
  assumes inv: "cache_inv c"
  shows "cache_inv (RemoveOldest c)" and "cache_abs (RemoveOldest c) = butlast (cache_abs c)"
proof -
  have "cache_inv (RemoveOldest c) \<and> cache_abs (RemoveOldest c) = butlast (cache_abs c)"
  proof (cases "ll_elems c")
    case Nil
    then show ?thesis
      using inv by (auto simp: RemoveOldest_def cache_abs_def ll_elems.simps split: option.splits)
  next
    case (Cons x xs)
    let ?l = "ll_elems c"
    have ne: "?l \<noteq> []" using Cons by simp
    have l: "c_ll c = Some ?l"
      using ne by (auto simp: ll_elems.simps split: option.splits)
    obtain e en where last: "last ?l = (e, en)" by fastforce
    then have en: "(e, en) \<in> set ?l" using last_in_set [OF ne] by simp
    have eq: "RemoveOldest c = removeElement c e"
      using ne last by (simp add: RemoveOldest_def l)
    have app: "map entry_kv ?l = butlast (map entry_kv ?l) @ [(e_key en, e_value en)]"
      using ne last by (metis append_butlast_last_id entry_kv_def last_map map_is_Nil_conv snd_conv)
    have "distinct (map fst (map entry_kv ?l))"
      using cache_invD(2) [OF inv] by (simp add: entry_kv_key)
    then have "AList.delete (e_key en) (map entry_kv ?l) = butlast (map entry_kv ?l)"
      by (subst app, subst (asm) app) (force simp: alist_delete_filter filter_id_conv)
    then show ?thesis
      using removeElement_inv [OF inv en] by (simp add: eq cache_abs_def)
  qed
  then show "cache_inv (RemoveOldest c)" "cache_abs (RemoveOldest c) = butlast (cache_abs c)"
    by auto
qed

lemma set_entry_value_inv:
  assumes inv: "cache_inv c" and "ll_elems c = (e, en) # l"
  shows "cache_inv (set_entry_value c e v)"
    and "cache_abs (set_entry_value c e v) = (e_key en, v) # map entry_kv l"
proof -
  note d = cache_invD [OF inv]
  have en: "(e, en) \<in> set (ll_elems c)" using assms(2) by simp
  obtain m where m: "c_ll c = Some (ll_elems c)" "c_m c = Some m" "distinct (map fst m)"
    "length m = length (ll_elems c)" "m_lookup c = map_of m"
    using cache_inv_SomeE [OF inv en] .
  have "e \<notin> fst ` set l" using d(1) assms(2) by simp
  then have id: "map (\<lambda>(a, en). (a, if a = e then en\<lparr>e_value := v\<rparr> else en)) l = l"
    by (intro map_idI) (auto simp: image_iff)
  let ?l = "(e, en\<lparr>e_value := v\<rparr>) # l"
  have eq: "set_entry_value c e v = c\<lparr>c_ll := Some ?l\<rparr>"
    using m(1) by (simp add: set_entry_value_def assms(2) id)
  show "cache_inv (set_entry_value c e v)"
    unfolding eq
  proof (rule cache_invI [where l = ?l and m = m])
    show "map_of m k = Some a \<longleftrightarrow> (\<exists>en. (a, en) \<in> set ?l \<and> e_key en = k)" for k a
      using d(5) [of k a] unfolding m(5) assms(2) by auto
    show "fst x < c_next (c\<lparr>c_ll := Some ?l\<rparr>)" if "x \<in> set ?l" for x
      using that d(6) [of "(e, en)"] d(6) [of x] unfolding assms(2) by auto
  qed (use d(1,2) m assms(2) in simp_all)
  show "cache_abs (set_entry_value c e v) = (e_key en, v) # map entry_kv l"
    by (simp add: eq cache_abs_def entry_kv_def)
qed

section \<open>The contract of the cache\<close>

lemma MaxEntries_ops [simp]:
  "MaxEntries (MoveToFront c e) = MaxEntries c"
  "MaxEntries (removeElement c e) = MaxEntries c"
  "MaxEntries (RemoveOldest c) = MaxEntries c"
  "MaxEntries (set_entry_value c e v) = MaxEntries c"
  "MaxEntries (new_cache n) = n"
  by (auto simp: MoveToFront_def removeElement_def RemoveOldest_def set_entry_value_def new_cache_def
      split: option.splits)

lemma MaxEntries_Add [simp]: "MaxEntries (Add c k v) = MaxEntries c"
  by (auto simp: Add_def PushFront_def Let_def split: option.splits)

lemma MaxEntries_Get [simp]: "MaxEntries (snd (Get c k)) = MaxEntries c"
  by (auto simp: Get_def split: option.splits)

lemma Get_inv:
  assumes inv: "cache_inv c"
  shows "cache_inv (snd (Get c k))" and "fst (Get c k) = map_of (cache_abs c) k"
    and "cache_abs (snd (Get c k)) = lru_touch (cache_abs c) k"
proof -
  have "cache_inv (snd (Get c k)) \<and> fst (Get c k) = map_of (cache_abs c) k \<and>
        cache_abs (snd (Get c k)) = lru_touch (cache_abs c) k"
  proof (cases "m_lookup c k")
    case None
    then show ?thesis
      using inv m_lookup_None [OF inv, of k] by (simp add: Get_def lru_touch_def)
  next
    case (Some e)
    obtain en where en: "(e, en) \<in> set (ll_elems c)" "e_key en = k" "map_of (ll_elems c) e = Some en"
      using m_lookup_SomeE [OF inv Some] .
    then show ?thesis
      using MoveToFront_inv [OF inv Some] MoveToFront_abs [OF inv Some]
        map_of_entry_kv [OF cache_invD(2) [OF inv] en(1)]
      by (simp add: Get_def Some cache_abs_def)
  qed
  then show "cache_inv (snd (Get c k))" "fst (Get c k) = map_of (cache_abs c) k"
    "cache_abs (snd (Get c k)) = lru_touch (cache_abs c) k" by auto
qed

text \<open>\<^verbatim>\<open>Add\<close> on an initialised cache: the key is present, or it is new.\<close>

lemma Add_hit:
  assumes inv: "cache_inv c" and l: "m_lookup c k = Some e"
  shows "cache_inv (Add c k v)" and "cache_abs (Add c k v) = lru_add (MaxEntries c) (cache_abs c) k v"
proof -
  obtain en where en: "(e, en) \<in> set (ll_elems c)" "e_key en = k" "map_of (ll_elems c) e = Some en"
    using m_lookup_SomeE [OF inv l] .
  note d = cache_invD [OF inv]
  have "c_m c \<noteq> None" using l by (auto simp: m_lookup_def split: option.splits)
  then have eq: "Add c k v = set_entry_value (MoveToFront c e) e v"
    by (auto simp: Add_def l)
  have ll: "ll_elems (MoveToFront c e) = (e, en) # AList.delete e (ll_elems c)"
    by (simp add: MoveToFront_eq [OF en(3)])
  note sv = set_entry_value_inv [OF MoveToFront_inv [OF inv l] ll, of v]
  have hit: "map_of (cache_abs c) k = Some (e_value en)"
    using map_of_entry_kv [OF d(2) en(1)] en(2) by (simp add: cache_abs_def)
  show "cache_inv (Add c k v)" unfolding eq by (rule sv)
  show "cache_abs (Add c k v) = lru_add (MaxEntries c) (cache_abs c) k v"
    using delete_entry_kv [OF d(1,2) en(1)] en(2)
    unfolding eq sv(2) lru_add_def hit by (simp add: cache_abs_def)
qed

lemma Add_miss:
  assumes inv: "cache_inv c" and m: "c_m c = Some m" and l: "m_lookup c k = None"
  shows "cache_inv (Add c k v)" and "cache_abs (Add c k v) = lru_add (MaxEntries c) (cache_abs c) k v"
proof -
  let ?c1 = "c\<lparr>c_ll := Some ((c_next c, \<lparr>e_key = k, e_value = v\<rparr>) # ll_elems c),
               c_next := Suc (c_next c), c_m := map_option (AList.update k (c_next c)) (c_m c)\<rparr>"
  note ins = insert_inv [OF inv m l, of v]
  have eq: "Add c k v = (if MaxEntries c \<noteq> 0 \<and> MaxEntries c < int (Len ?c1) then RemoveOldest ?c1 else ?c1)"
    by (simp add: Add_def l m PushFront_def Let_def)
  have len: "Len ?c1 = length (cache_abs ?c1)"
    using cache_invD(3) [OF ins(1)] by (simp only: cache_abs_def length_map)
  have none: "map_of (cache_abs c) k = None"
    using l m_lookup_None [OF inv] by simp
  then have del: "AList.delete k (cache_abs c) = cache_abs c"
    by (auto simp: alist_delete_filter filter_id_conv map_of_eq_None_iff image_iff)
  show "cache_inv (Add c k v)"
    unfolding eq using ins(1) RemoveOldest_inv(1) [OF ins(1)] by presburger
  show "cache_abs (Add c k v) = lru_add (MaxEntries c) (cache_abs c) k v"
    unfolding eq lru_add_def Let_def del len
    using ins(2) RemoveOldest_inv(2) [OF ins(1)] none by presburger
qed

lemma Add_inv:
  assumes inv: "cache_inv c"
  shows "cache_inv (Add c k v)" and "cache_abs (Add c k v) = lru_add (MaxEntries c) (cache_abs c) k v"
proof -
  have "cache_inv (Add c k v) \<and> cache_abs (Add c k v) = lru_add (MaxEntries c) (cache_abs c) k v"
  proof (cases "c_m c")
    case None
    let ?c = "c\<lparr>c_m := Some [], c_ll := Some []\<rparr>"
    have abs: "cache_abs c = []" "cache_abs ?c = []"
      using None cache_invD(4) [OF inv] by (simp_all add: cache_abs_def ll_elems.simps)
    have inv': "cache_inv ?c"
      by (rule cache_invI [where l = "[]" and m = "[]"]) auto
    have "Add c k v = Add ?c k v" using None by (simp add: Add_def Let_def)
    then show ?thesis
      using Add_miss [OF inv', of "[]" k v]
      by (simp add: m_lookup_def abs)
  next
    case (Some m)
    then show ?thesis
      using Add_hit [OF inv] Add_miss [OF inv Some] by (cases "m_lookup c k") blast+
  qed
  then show "cache_inv (Add c k v)" "cache_abs (Add c k v) = lru_add (MaxEntries c) (cache_abs c) k v"
    by auto
qed

subsection \<open>How long an entry survives\<close>

text \<open>The keys used more recently than \<open>k\<close>.\<close>

definition newer :: "('k \<times> 'v) list \<Rightarrow> 'k \<Rightarrow> 'k set" where
  "newer xs k = fst ` set (takeWhile (\<lambda>x. fst x \<noteq> k) xs)"

lemma set_takeWhile_filter:
  "(\<And>x. \<not> P x \<Longrightarrow> Q x) \<Longrightarrow> set (takeWhile P (filter Q xs)) \<subseteq> set (takeWhile P xs)"
  by (induction xs) auto

lemma newer_front: "newer ((k', v) # AList.delete k' xs) k \<subseteq> insert k' (newer xs k) - {k}"
proof -
  have "set (takeWhile (\<lambda>x. fst x \<noteq> k) (AList.delete k' xs)) \<subseteq> set (takeWhile (\<lambda>x. fst x \<noteq> k) xs)"
    if "k' \<noteq> k"
    unfolding alist_delete_filter using that by (intro set_takeWhile_filter) auto
  then show ?thesis
    by (cases "k' = k") (auto simp: newer_def dest: set_takeWhileD)
qed

lemma newer_not_self: "k \<notin> newer xs k"
  by (auto simp: newer_def dest: set_takeWhileD)

lemma keys_front: "fst ` set ((k', v) # AList.delete k' xs) = insert k' (fst ` set xs)"
  by (auto simp: alist_delete_filter image_iff)

lemma keys_lru_touch: "fst ` set (lru_touch xs k) = fst ` set xs"
  using keys_front [of k _ xs]
  by (auto simp: lru_touch_def split: option.splits dest: map_of_SomeD) (metis fst_conv image_eqI map_of_SomeD)+

lemma newer_lru_touch: "newer (lru_touch xs k') k \<subseteq> insert k' (newer xs k) - {k}"
  using newer_front [of k' _ xs k] newer_not_self [of k xs]
  by (auto simp: lru_touch_def split: option.splits)

text \<open>Dropping the oldest pair loses \<open>k\<close> only when every other pair is newer.\<close>

lemma butlast_keeps:
  assumes "distinct (map fst ys)" and "k \<in> fst ` set ys" and "card (newer ys k) + 1 < length ys"
  shows "k \<in> fst ` set (butlast ys) \<and> newer (butlast ys) k = newer ys k"
proof -
  obtain zs y where ys: "ys = zs @ [y]"
    using assms(2) by (cases ys rule: rev_cases) auto
  have "k \<in> fst ` set zs"
  proof (rule ccontr)
    assume "k \<notin> fst ` set zs"
    then have "takeWhile (\<lambda>x. fst x \<noteq> k) ys = zs"
      using assms(2) by (auto simp: ys takeWhile_append image_iff)
    then have "card (newer ys k) = length zs"
      using assms(1) by (simp add: newer_def ys distinct_card flip: set_map)
    then show False using assms(3) by (simp add: ys)
  qed
  then show ?thesis
    by (auto simp: ys newer_def takeWhile_append)
qed

lemma lru_add_keeps:
  assumes "distinct (map fst xs)" and "k \<in> fst ` set xs" and "0 < n"
    and "finite S" and "newer xs k \<subseteq> S" and "int (card (insert k' S - {k})) < n"
  shows "k \<in> fst ` set (lru_add n xs k' v) \<and> newer (lru_add n xs k' v) k \<subseteq> insert k' S - {k}"
proof -
  let ?ys = "(k', v) # AList.delete k' xs"
  have keys: "k \<in> fst ` set ?ys" and new: "newer ?ys k \<subseteq> insert k' S - {k}"
    using assms(2,5) keys_front [of k' v xs] newer_front [of k' v xs k] by auto
  have "card (newer ?ys k) \<le> card (insert k' S - {k})"
    using new assms(4) by (intro card_mono) auto
  moreover have "distinct (map fst ?ys)"
    using assms(1) by (auto simp: distinct_delete set_alist_delete)
  ultimately show ?thesis
    using butlast_keeps [of ?ys k] keys new assms(6)
    unfolding lru_add_def Let_def by (auto simp: not_less)
qed

lemma lru_add_front:
  assumes "0 < n"
  shows "k \<in> fst ` set (lru_add n xs k v) \<and> newer (lru_add n xs k v) k = {}"
  using assms by (auto simp: lru_add_def Let_def newer_def)

text \<open>A client's use of the cache is a sequence of lookups and additions.\<close>

datatype ('k, 'v) cache_op = OpGet (op_key: 'k) | OpAdd (op_key: 'k) 'v

locale lru_cache =
  fixes inv :: "'c \<Rightarrow> bool" and abs :: "'c \<Rightarrow> ('k \<times> 'v) list" and cap :: "'c \<Rightarrow> int"
    and get :: "'c \<Rightarrow> 'k \<Rightarrow> 'v option \<times> 'c" and add :: "'c \<Rightarrow> 'k \<Rightarrow> 'v \<Rightarrow> 'c"
  assumes distinct_abs: "inv c \<Longrightarrow> distinct (map fst (abs c))"
    and inv_get: "inv c \<Longrightarrow> inv (snd (get c k))"
    and inv_add: "inv c \<Longrightarrow> inv (add c k v)"
    and fst_get: "inv c \<Longrightarrow> fst (get c k) = map_of (abs c) k"
    and abs_get: "inv c \<Longrightarrow> abs (snd (get c k)) = lru_touch (abs c) k"
    and abs_add: "inv c \<Longrightarrow> abs (add c k v) = lru_add (cap c) (abs c) k v"
    and cap_get: "cap (snd (get c k)) = cap c"
    and cap_add: "cap (add c k v) = cap c"
begin

lemma present_iff: "inv c \<Longrightarrow> fst (get c k) \<noteq> None \<longleftrightarrow> k \<in> fst ` set (abs c)"
  by (auto simp: fst_get map_of_eq_None_iff)

lemma get_after_add: "inv c \<Longrightarrow> 0 < cap c \<Longrightarrow> fst (get (add c k v) k) \<noteq> None"
  using lru_add_front [of "cap c" k "abs c" v] present_iff [OF inv_add]
  by (simp only: abs_add)

lemma size_bound:
  assumes "inv c" "0 < cap c" "int (length (abs c)) \<le> cap c"
  shows "int (length (abs (add c k v))) \<le> cap c" "int (length (abs (snd (get c k)))) \<le> cap c"
proof -
  have "length (abs (snd (get c k))) = length (abs c)"
  proof (cases "map_of (abs c) k")
    case None
    then show ?thesis using assms(1) by (simp add: abs_get lru_touch_def)
  next
    case (Some v)
    then have "(k, v) \<in> set (abs c)" by (rule map_of_SomeD)
    then show ?thesis
      using length_delete_mem [OF distinct_abs [OF assms(1)]] Some assms(1)
      by (simp add: abs_get lru_touch_def)
  qed
  then show "int (length (abs (snd (get c k)))) \<le> cap c" using assms(3) by simp
  have "length (AList.delete k (abs c)) < length (abs c)" if "map_of (abs c) k \<noteq> None"
    using that length_delete_mem [OF distinct_abs [OF assms(1)]] by (metis lessI map_of_SomeD not_None_eq)
  moreover have "length (AList.delete k (abs c)) \<le> length (abs c)"
    by (simp add: alist_delete_filter)
  ultimately show "int (length (abs (add c k v))) \<le> cap c"
    using assms by (auto simp: abs_add lru_add_def Let_def)
qed

text \<open>One step of a client, and the survival of a key over any sequence of steps that uses
  fewer other keys than the cache holds.\<close>

lemma step_keeps:
  assumes "inv c" "0 < cap c" "k \<in> fst ` set (abs c)" "finite S" "newer (abs c) k \<subseteq> S"
    and "int (card (insert (op_key x) S - {k})) < cap c"
    and "c' = (case x of OpGet k' \<Rightarrow> snd (get c k') | OpAdd k' v \<Rightarrow> add c k' v)"
  shows "inv c'" "cap c' = cap c" "k \<in> fst ` set (abs c')" "newer (abs c') k \<subseteq> insert (op_key x) S - {k}"
proof -
  have "inv c' \<and> cap c' = cap c \<and> k \<in> fst ` set (abs c') \<and> newer (abs c') k \<subseteq> insert (op_key x) S - {k}"
  proof (cases x)
    case (OpGet k')
    then show ?thesis
      using assms newer_lru_touch [of "abs c" k' k]
      by (auto simp: inv_get cap_get abs_get keys_lru_touch)
  next
    case (OpAdd k' v)
    then show ?thesis
      using assms lru_add_keeps [OF distinct_abs [OF assms(1)] assms(3,2,4,5), of k' v]
      by (auto simp: inv_add cap_add abs_add)
  qed
  then show "inv c'" "cap c' = cap c" "k \<in> fst ` set (abs c')" "newer (abs c') k \<subseteq> insert (op_key x) S - {k}"
    by auto
qed

lemma run_keeps:
  assumes "inv c" "0 < cap c" "k \<in> fst ` set (abs c)" "finite S" "newer (abs c) k \<subseteq> S"
    and "int (card (op_key ` set xs \<union> S - {k})) < cap c"
  shows "k \<in> fst ` set (abs (foldl (\<lambda>c x. case x of OpGet k' \<Rightarrow> snd (get c k') | OpAdd k' v \<Rightarrow> add c k' v) c xs))"
  using assms
proof (induction xs arbitrary: c S)
  case Nil
  then show ?case by simp
next
  case (Cons x xs)
  let ?c = "case x of OpGet k' \<Rightarrow> snd (get c k') | OpAdd k' v \<Rightarrow> add c k' v"
  have "card (insert (op_key x) S - {k}) \<le> card (op_key ` set (x # xs) \<union> S - {k})"
    using Cons.prems(4) by (intro card_mono) auto
  then have "int (card (insert (op_key x) S - {k})) < cap c"
    using Cons.prems(6) by linarith
  note s = step_keeps [OF Cons.prems(1-5) this refl]
  have "op_key ` set xs \<union> (insert (op_key x) S - {k}) - {k} = op_key ` set (x # xs) \<union> S - {k}"
    by auto
  then show ?case
    using Cons.IH [OF s(1) _ s(3) _ s(4)] Cons.prems s(2) by simp
qed

lemma survives:
  assumes "inv c" "0 < cap c" "int (card (op_key ` set xs - {k})) < cap c"
  shows "k \<in> fst ` set (abs (foldl (\<lambda>c x. case x of OpGet k' \<Rightarrow> snd (get c k') | OpAdd k' v \<Rightarrow> add c k' v)
           (add c k v) xs))"
  by (rule run_keeps [where S = "{}"])
     (use assms lru_add_front [OF assms(2), of k "abs c" v] in \<open>auto simp: inv_add cap_add abs_add\<close>)

end

interpretation flow: lru_cache cache_inv cache_abs MaxEntries Get Add
proof unfold_locales
  show "distinct (map fst (cache_abs c))" if "cache_inv c" for c :: "('ip, 'v) cache"
    using cache_invD(2) [OF that] by (simp add: cache_abs_def entry_kv_key)
qed (simp_all add: Get_inv Add_inv)

section \<open>Properties\<close>

text \<open>A call of the exported interface, with its result, on the cache and on the specification.\<close>

datatype ('k, 'v) call = CallAdd 'k 'v | CallGet 'k | CallRemove 'k | CallRemoveOldest | CallLen

datatype 'v call_result = Done | Got "'v option" | Size nat

fun cache_call :: "('ip, 'v) cache \<Rightarrow> ('ip tuple, 'v) call \<Rightarrow> 'v call_result \<times> ('ip, 'v) cache" where
  "cache_call c (CallAdd k v) = (Done, Add c k v)"
| "cache_call c (CallGet k) = (let (r, c') = Get c k in (Got r, c'))"
| "cache_call c (CallRemove k) = (Done, Remove c k)"
| "cache_call c CallRemoveOldest = (Done, RemoveOldest c)"
| "cache_call c CallLen = (Size (Len c), c)"

fun lru_call :: "int \<Rightarrow> ('k \<times> 'v) list \<Rightarrow> ('k, 'v) call \<Rightarrow> 'v call_result \<times> ('k \<times> 'v) list" where
  "lru_call n xs (CallAdd k v) = (Done, lru_add n xs k v)"
| "lru_call n xs (CallGet k) = (Got (map_of xs k), lru_touch xs k)"
| "lru_call n xs (CallRemove k) = (Done, AList.delete k xs)"
| "lru_call n xs CallRemoveOldest = (Done, butlast xs)"
| "lru_call n xs CallLen = (Size (length xs), xs)"

fun run_calls :: "('s \<Rightarrow> 'c \<Rightarrow> 'r \<times> 's) \<Rightarrow> 's \<Rightarrow> 'c list \<Rightarrow> 'r list \<times> 's" where
  "run_calls f s [] = ([], s)"
| "run_calls f s (x # xs) = (let (r, s') = f s x; (rs, s'') = run_calls f s' xs in (r # rs, s''))"

lemma Remove_inv:
  assumes "cache_inv c"
  shows "cache_inv (Remove c k) \<and> cache_abs (Remove c k) = AList.delete k (cache_abs c)"
proof (cases "m_lookup c k")
  case None
  then have "k \<notin> fst ` set (cache_abs c)"
    using m_lookup_None [OF assms] by (simp add: map_of_eq_None_iff)
  then have "AList.delete k (cache_abs c) = cache_abs c"
    by (auto simp: alist_delete_filter filter_id_conv)
  then show ?thesis using None assms by (simp add: Remove_def)
next
  case (Some e)
  obtain en where "(e, en) \<in> set (ll_elems c)" "e_key en = k"
    using m_lookup_SomeE [OF assms Some] by blast
  then show ?thesis
    using removeElement_inv [OF assms] Some by (auto simp: Remove_def)
qed

lemma Len_abs: "cache_inv c \<Longrightarrow> Len c = length (cache_abs c)"
  by (simp add: cache_abs_def cache_inv_def)

lemma MaxEntries_Remove [simp]: "MaxEntries (Remove c k) = MaxEntries c"
  by (simp add: Remove_def split: option.split)

lemma cache_call_refines:
  assumes "cache_inv c"
  shows "fst (cache_call c x) = fst (lru_call (MaxEntries c) (cache_abs c) x)"
    and "cache_abs (snd (cache_call c x)) = snd (lru_call (MaxEntries c) (cache_abs c) x)"
    and "cache_inv (snd (cache_call c x))" and "MaxEntries (snd (cache_call c x)) = MaxEntries c"
  by (cases x; simp add: assms split_beta Get_inv Add_inv Remove_inv RemoveOldest_inv Len_abs)+

lemma run_calls_refines:
  assumes "cache_inv c"
  shows "fst (run_calls cache_call c xs) = fst (run_calls (lru_call (MaxEntries c)) (cache_abs c) xs) \<and>
    cache_abs (snd (run_calls cache_call c xs)) = snd (run_calls (lru_call (MaxEntries c)) (cache_abs c) xs) \<and>
    cache_inv (snd (run_calls cache_call c xs))"
  using assms
proof (induction xs arbitrary: c)
  case (Cons x xs)
  note r = cache_call_refines [OF Cons.prems, of x]
  show ?case
    using Cons.IH [OF r(3)] by (simp add: split_beta r)
qed simp

text \<open>
  C10. Every sequence of calls on a new flow-tracking cache returns what the least-recently-used
  list of pairs returns, and leaves that list: the linked list and the index map together implement
  the specification, eviction included.
\<close>

theorem cache_implements_lru:
  "fst (run_calls cache_call (new_cache n) xs) = fst (run_calls (lru_call n) [] xs) \<and>
   cache_abs (snd (run_calls cache_call (new_cache n) xs)) = snd (run_calls (lru_call n) [] xs) \<and>
   cache_inv (snd (run_calls cache_call (new_cache n) xs))"
  using run_calls_refines [OF cache_inv_new, of n xs] by simp

text \<open>
  C26. A flow that was just added is still found after any sequence of lookups and additions, as
  long as these touch fewer other flows than \<^verbatim>\<open>MaxEntries\<close>.
\<close>

theorem added_flow_survives:
  assumes "cache_inv c" "0 < MaxEntries c" "int (card (op_key ` set xs - {k})) < MaxEntries c"
  shows "fst (Get (foldl (\<lambda>c x. case x of OpGet k' \<Rightarrow> snd (Get c k') | OpAdd k' v \<Rightarrow> Add c k' v)
           (Add c k v) xs) k) \<noteq> None"
proof -
  let ?c = "foldl (\<lambda>c x. case x of OpGet k' \<Rightarrow> snd (Get c k') | OpAdd k' v \<Rightarrow> Add c k' v) (Add c k v) xs"
  have "cache_inv d \<Longrightarrow> cache_inv (foldl (\<lambda>c x. case x of OpGet k' \<Rightarrow> snd (Get c k') | OpAdd k' v \<Rightarrow> Add c k' v) d xs)" for d
    by (induction xs arbitrary: d) (auto simp: Get_inv Add_inv split: cache_op.splits)
  then have "cache_inv ?c" using assms(1) by (simp add: Add_inv)
  then show ?thesis by (rule flow.present_iff [THEN iffD2, OF _ flow.survives [OF assms]])
qed

theorem added_flow_survives_witness:
  "fst (Get (foldl (\<lambda>c x. case x of OpGet k' \<Rightarrow> snd (Get c k') | OpAdd k' v \<Rightarrow> Add c k' v)
     (Add (new_cache 2) (Tuple 6 (IPPort (0 :: nat) 1) (IPPort 0 2)) ())
     [OpAdd (Tuple 6 (IPPort 0 3) (IPPort 0 4)) (), OpGet (Tuple 6 (IPPort 0 3) (IPPort 0 4))])
     (Tuple 6 (IPPort 0 1) (IPPort 0 2))) \<noteq> None"
  by (rule added_flow_survives) (simp_all add: cache_inv_new)

lemma cache_call_size:
  assumes inv: "cache_inv c" and pos: "0 < MaxEntries c" and len: "int (length (cache_abs c)) \<le> MaxEntries c"
  shows "int (length (cache_abs (snd (cache_call c x)))) \<le> MaxEntries c"
proof (cases x)
  case (CallRemove k)
  have "length (AList.delete k (cache_abs c)) \<le> length (cache_abs c)"
    by (simp add: alist_delete_filter)
  then show ?thesis using len cache_call_refines(2) [OF inv, of x] by (simp add: CallRemove)
qed (use assms flow.size_bound [OF assms] RemoveOldest_inv(2) [OF inv] in \<open>simp_all add: split_beta\<close>)

lemma run_calls_size:
  assumes "cache_inv c" and "0 < MaxEntries c" and "int (length (cache_abs c)) \<le> MaxEntries c"
  shows "int (length (cache_abs (snd (run_calls cache_call c xs)))) \<le> MaxEntries c"
  using assms
proof (induction xs arbitrary: c)
  case (Cons x xs)
  note r = cache_call_refines [OF Cons.prems(1), of x] and z = cache_call_size [OF Cons.prems, of x]
  show ?case
    using Cons.IH [OF r(3)] Cons.prems(2) z by (simp add: split_beta r(4))
qed simp

text \<open>
  A cache with a positive \<^verbatim>\<open>MaxEntries\<close> never holds more entries than that, whatever the calls.
\<close>

theorem cache_size_bounded:
  assumes "0 < n"
  shows "int (Len (snd (run_calls cache_call (new_cache n) xs))) \<le> n"
  using run_calls_size [OF cache_inv_new, of n xs] run_calls_refines [OF cache_inv_new, of n xs] assms
  by (simp add: Len_abs)

theorem cache_size_bounded_witness:
  "int (Len (snd (run_calls cache_call (new_cache 1)
     [CallAdd (Tuple 6 (IPPort (0 :: nat) 1) (IPPort 0 2)) (), CallAdd (Tuple 6 (IPPort 0 3) (IPPort 0 4)) ()]))) \<le> 1"
  by (rule cache_size_bounded) simp

end
