(* ===== verification/Packet.thy ===== *)
theory Packet
  imports Netaddr
begin

text \<open>
  Packet decoding, \<^verbatim>\<open>net/packet/packet.go\<close> with the protocol numbers of
  \<^verbatim>\<open>types/ipproto/ipproto.go\<close> and the type codes of \<^verbatim>\<open>icmp4.go\<close> and \<^verbatim>\<open>icmp6.go\<close>.
  \<^verbatim>\<open>Parsed.Decode\<close> overwrites a \<open>parsed\<close> record that may hold the fields of an earlier
  packet (the tunnel device keeps a pool of them), so it takes the old record. Every index and
  slice expression of the source is checked: \<open>None\<close> is Go's panic.
\<close>

section \<open>Protocol numbers and header sizes\<close>

definition Unknown :: u8 where "Unknown = 0x00"
definition ICMPv4 :: u8 where "ICMPv4 = 0x01"
definition IGMP :: u8 where "IGMP = 0x02"
definition ICMPv6 :: u8 where "ICMPv6 = 0x3a"
definition TCP :: u8 where "TCP = 0x06"
definition UDP :: u8 where "UDP = 0x11"
definition SCTP :: u8 where "SCTP = 0x84"
definition TSMP :: u8 where "TSMP = 99"
definition Fragment :: u8 where "Fragment = 0xFF"

lemmas proto_defs = Unknown_def ICMPv4_def IGMP_def ICMPv6_def TCP_def UDP_def SCTP_def TSMP_def
  Fragment_def

lemma proto_distinct [simp]:
  "Fragment \<noteq> Unknown" "Unknown \<noteq> Fragment" "ICMPv4 \<noteq> Unknown" "IGMP \<noteq> Unknown" "TCP \<noteq> Unknown"
  "UDP \<noteq> Unknown" "SCTP \<noteq> Unknown" "TSMP \<noteq> Unknown" "ICMPv6 \<noteq> Unknown"
  "Unknown \<noteq> ICMPv4" "Unknown \<noteq> IGMP" "Unknown \<noteq> TCP" "Unknown \<noteq> UDP" "Unknown \<noteq> SCTP" "Unknown \<noteq> TSMP"
  "Unknown \<noteq> ICMPv6"
  "ICMPv4 \<noteq> IGMP" "ICMPv4 \<noteq> TCP" "ICMPv4 \<noteq> UDP" "ICMPv4 \<noteq> SCTP" "ICMPv4 \<noteq> TSMP" "ICMPv4 \<noteq> ICMPv6"
  "ICMPv4 \<noteq> Fragment"
  "IGMP \<noteq> ICMPv4" "IGMP \<noteq> TCP" "IGMP \<noteq> UDP" "IGMP \<noteq> SCTP" "IGMP \<noteq> TSMP" "IGMP \<noteq> ICMPv6"
  "IGMP \<noteq> Fragment"
  "TCP \<noteq> ICMPv4" "TCP \<noteq> IGMP" "TCP \<noteq> UDP" "TCP \<noteq> SCTP" "TCP \<noteq> TSMP" "TCP \<noteq> ICMPv6" "TCP \<noteq> Fragment"
  "UDP \<noteq> ICMPv4" "UDP \<noteq> IGMP" "UDP \<noteq> TCP" "UDP \<noteq> SCTP" "UDP \<noteq> TSMP" "UDP \<noteq> ICMPv6" "UDP \<noteq> Fragment"
  "SCTP \<noteq> ICMPv4" "SCTP \<noteq> IGMP" "SCTP \<noteq> TCP" "SCTP \<noteq> UDP" "SCTP \<noteq> TSMP" "SCTP \<noteq> ICMPv6" "SCTP \<noteq> Fragment"
  "TSMP \<noteq> ICMPv4" "TSMP \<noteq> IGMP" "TSMP \<noteq> TCP" "TSMP \<noteq> UDP" "TSMP \<noteq> SCTP" "TSMP \<noteq> ICMPv6" "TSMP \<noteq> Fragment"
  "ICMPv6 \<noteq> ICMPv4" "ICMPv6 \<noteq> IGMP" "ICMPv6 \<noteq> TCP" "ICMPv6 \<noteq> UDP" "ICMPv6 \<noteq> SCTP" "ICMPv6 \<noteq> TSMP"
  "ICMPv6 \<noteq> Fragment" "Fragment \<noteq> ICMPv4" "Fragment \<noteq> IGMP" "Fragment \<noteq> TCP" "Fragment \<noteq> UDP"
  "Fragment \<noteq> SCTP" "Fragment \<noteq> TSMP" "Fragment \<noteq> ICMPv6"
  by (simp_all add: proto_defs)

definition ip4HeaderLength :: nat where "ip4HeaderLength = 20"
definition ip6HeaderLength :: nat where "ip6HeaderLength = 40"
definition icmp4HeaderLength :: nat where "icmp4HeaderLength = 4"
definition icmp6HeaderLength :: nat where "icmp6HeaderLength = 4"
definition udpHeaderLength :: nat where "udpHeaderLength = 8"
definition tcpHeaderLength :: nat where "tcpHeaderLength = 20"
definition sctpHeaderLength :: nat where "sctpHeaderLength = 12"
definition minFrag :: nat where "minFrag = 60 + 20"

lemmas header_length_defs = ip4HeaderLength_def ip6HeaderLength_def icmp4HeaderLength_def
  icmp6HeaderLength_def udpHeaderLength_def tcpHeaderLength_def sctpHeaderLength_def minFrag_def

definition TCPFin :: u8 where "TCPFin = 0x01"
definition TCPSyn :: u8 where "TCPSyn = 0x02"
definition TCPRst :: u8 where "TCPRst = 0x04"
definition TCPPsh :: u8 where "TCPPsh = 0x08"
definition TCPAck :: u8 where "TCPAck = 0x10"
definition TCPSynAck :: u8 where "TCPSynAck = TCPSyn OR TCPAck"

lemmas tcp_flag_defs = TCPFin_def TCPSyn_def TCPRst_def TCPPsh_def TCPAck_def TCPSynAck_def

section \<open>Parsed packets\<close>

record 'ip parsed =
  q_b :: bytes
  q_subofs :: nat
  q_dataofs :: nat
  q_length :: nat
  IPVersion :: u8
  IPProto :: u8
  q_Src :: "'ip ipport"
  q_Dst :: "'ip ipport"
  TCPFlags :: u8

text \<open>The zero value of the struct; \<open>z\<close> is the zero \<^verbatim>\<open>netaddr.IP\<close>.\<close>

definition zero_parsed :: "'ip \<Rightarrow> 'ip parsed" where
  "zero_parsed z =
     \<lparr>q_b = [], q_subofs = 0, q_dataofs = 0, q_length = 0, IPVersion = 0, IPProto = Unknown,
      q_Src = IPPort z 0, q_Dst = IPPort z 0, TCPFlags = 0\<rparr>"

text \<open>The recurring expression \<^verbatim>\<open>binary.BigEndian.Uint16(b[i:j])\<close>, and the assignments of both ports
  from the first four bytes of the transport header.\<close>

definition u16_at :: "bytes \<Rightarrow> nat \<Rightarrow> nat \<Rightarrow> u16 option" where
  "u16_at b i j = do { s \<leftarrow> slice b i j; Uint16 s }"

definition set_ports :: "'ip parsed \<Rightarrow> bytes \<Rightarrow> 'ip parsed option" where
  "set_ports q sub =
     do { sp \<leftarrow> u16_at sub 0 2;
          dp \<leftarrow> u16_at sub 2 4;
          Some (q\<lparr>q_Src := WithPort (q_Src q) sp, q_Dst := WithPort (q_Dst q) dp\<rparr>) }"

definition unknown_proto :: "'ip parsed \<Rightarrow> 'ip parsed" where
  "unknown_proto q = q\<lparr>IPProto := Unknown\<rparr>"

definition decode_tcp :: "'ip parsed \<Rightarrow> bytes \<Rightarrow> 'ip parsed option" where
  "decode_tcp q sub =
     (if length sub < tcpHeaderLength then Some (unknown_proto q)
      else do {
        q \<leftarrow> set_ports q sub;
        f \<leftarrow> idx sub 13;
        h \<leftarrow> idx sub 12;
        let headerLength = drop_bit 2 (h AND 0xF0);
        Some (q\<lparr>TCPFlags := f AND 0x3F, q_dataofs := q_subofs q + unat headerLength\<rparr>) })"

definition decode_udp :: "'ip parsed \<Rightarrow> bytes \<Rightarrow> 'ip parsed option" where
  "decode_udp q sub =
     (if length sub < udpHeaderLength then Some (unknown_proto q)
      else do {
        q \<leftarrow> set_ports q sub;
        Some (q\<lparr>q_dataofs := q_subofs q + udpHeaderLength\<rparr>) })"

definition decode_sctp :: "'ip parsed \<Rightarrow> bytes \<Rightarrow> 'ip parsed option" where
  "decode_sctp q sub =
     (if length sub < sctpHeaderLength then Some (unknown_proto q) else set_ports q sub)"

definition decode_icmp :: "nat \<Rightarrow> 'ip parsed \<Rightarrow> bytes \<Rightarrow> 'ip parsed option" where
  "decode_icmp hlen q sub =
     (if length sub < hlen then Some (unknown_proto q)
      else Some (q\<lparr>q_Src := WithPort (q_Src q) 0, q_Dst := WithPort (q_Dst q) 0,
                    q_dataofs := q_subofs q + hlen\<rparr>))"

text \<open>The protocol switch of a first or only IPv4 fragment.\<close>

definition decode4_first :: "'ip parsed \<Rightarrow> bytes \<Rightarrow> 'ip parsed option" where
  "decode4_first q sub =
     (if IPProto q = ICMPv4 then decode_icmp icmp4HeaderLength q sub
      else if IPProto q = IGMP then Some q
      else if IPProto q = TCP then decode_tcp q sub
      else if IPProto q = UDP then decode_udp q sub
      else if IPProto q = SCTP then decode_sctp q sub
      else if IPProto q = TSMP then Some (q\<lparr>q_dataofs := q_subofs q\<rparr>)
      else Some (unknown_proto q))"

definition decode4_frag :: "'ip parsed \<Rightarrow> bytes \<Rightarrow> u16 \<Rightarrow> 'ip parsed option" where
  "decode4_frag q sub fragFlags =
     (let moreFrags = (fragFlags AND 0x20 \<noteq> 0);
          fragOfs = fragFlags AND 0x1FFF
      in if fragOfs = 0
         then if moreFrags \<and> length sub < minFrag then Some (unknown_proto q)
              else decode4_first q sub
         else if unat fragOfs < minFrag then Some (unknown_proto q)
         else Some (q\<lparr>IPProto := Fragment\<rparr>))"

definition decode4 :: "'ip netaddr \<Rightarrow> 'ip parsed \<Rightarrow> bytes \<Rightarrow> 'ip parsed option" where
  "decode4 na q b =
     (if length b < ip4HeaderLength then Some (q\<lparr>IPVersion := 0, IPProto := Unknown\<rparr>)
      else do {
        p \<leftarrow> idx b 9;
        l \<leftarrow> u16_at b 2 4;
        let q = q\<lparr>IPProto := p, q_length := unat l\<rparr>;
        if length b < q_length q then Some (unknown_proto q)
        else do {
          s0 \<leftarrow> idx b 12; s1 \<leftarrow> idx b 13; s2 \<leftarrow> idx b 14; s3 \<leftarrow> idx b 15;
          d0 \<leftarrow> idx b 16; d1 \<leftarrow> idx b 17; d2 \<leftarrow> idx b 18; d3 \<leftarrow> idx b 19;
          b0 \<leftarrow> idx b 0;
          let q = q\<lparr>q_Src := WithIP (q_Src q) (na_IPv4 na s0 s1 s2 s3),
                    q_Dst := WithIP (q_Dst q) (na_IPv4 na d0 d1 d2 d3),
                    q_subofs := unat (push_bit 2 (b0 AND 0x0F))\<rparr>;
          if q_length q < q_subofs q then Some (unknown_proto q)
          else do {
            sub \<leftarrow> slice_from b (q_subofs q);
            fragFlags \<leftarrow> u16_at b 6 8;
            decode4_frag q sub fragFlags } } })"

definition decode6_sub :: "'ip parsed \<Rightarrow> bytes \<Rightarrow> 'ip parsed option" where
  "decode6_sub q sub =
     (if IPProto q = ICMPv6 then decode_icmp icmp6HeaderLength q sub
      else if IPProto q = TCP then decode_tcp q sub
      else if IPProto q = UDP then decode_udp q sub
      else if IPProto q = SCTP then decode_sctp q sub
      else if IPProto q = TSMP then Some (q\<lparr>q_dataofs := q_subofs q\<rparr>)
      else Some (unknown_proto q))"

definition decode6 :: "'ip netaddr \<Rightarrow> 'ip parsed \<Rightarrow> bytes \<Rightarrow> 'ip parsed option" where
  "decode6 na q b =
     (if length b < ip6HeaderLength then Some (q\<lparr>IPVersion := 0, IPProto := Unknown\<rparr>)
      else do {
        p \<leftarrow> idx b 6;
        l \<leftarrow> u16_at b 4 6;
        let q = q\<lparr>IPProto := p, q_length := unat l + ip6HeaderLength\<rparr>;
        if length b < q_length q then Some (unknown_proto q)
        else do {
          s \<leftarrow> slice b 8 24;
          d \<leftarrow> slice b 24 40;
          let q = q\<lparr>q_Src := WithIP (q_Src q) (fst (na_FromStdIP na s)),
                    q_Dst := WithIP (q_Dst q) (fst (na_FromStdIP na d)),
                    q_subofs := 40\<rparr>;
          sub \<leftarrow> slice_from b (q_subofs q);
          decode6_sub q sub } })"

definition Decode :: "'ip netaddr \<Rightarrow> 'ip parsed \<Rightarrow> bytes \<Rightarrow> 'ip parsed option" where
  "Decode na q b =
     (let q = q\<lparr>q_b := b\<rparr>
      in if length b < 1 then Some (q\<lparr>IPVersion := 0, IPProto := Unknown\<rparr>)
         else do {
           b0 \<leftarrow> idx b 0;
           let q = q\<lparr>IPVersion := drop_bit 4 b0\<rparr>;
           if IPVersion q = 4 then decode4 na q b
           else if IPVersion q = 6 then decode6 na q b
           else Some (q\<lparr>IPVersion := 0, IPProto := Unknown\<rparr>) })"

section \<open>Accessors\<close>

definition ICMP4EchoReply :: u8 where "ICMP4EchoReply = 0x00"
definition ICMP4EchoRequest :: u8 where "ICMP4EchoRequest = 0x08"
definition ICMP4Unreachable :: u8 where "ICMP4Unreachable = 0x03"
definition ICMP4TimeExceeded :: u8 where "ICMP4TimeExceeded = 0x0b"
definition ICMP4NoCode :: u8 where "ICMP4NoCode = 0"
definition ICMP6Unreachable :: u8 where "ICMP6Unreachable = 1"
definition ICMP6TimeExceeded :: u8 where "ICMP6TimeExceeded = 3"
definition ICMP6EchoRequest :: u8 where "ICMP6EchoRequest = 128"
definition ICMP6EchoReply :: u8 where "ICMP6EchoReply = 129"
definition ICMP6NoCode :: u8 where "ICMP6NoCode = 0"

lemmas icmp_defs = ICMP4EchoReply_def ICMP4EchoRequest_def ICMP4Unreachable_def
  ICMP4TimeExceeded_def ICMP4NoCode_def ICMP6Unreachable_def ICMP6TimeExceeded_def
  ICMP6EchoRequest_def ICMP6EchoReply_def ICMP6NoCode_def

definition Buffer :: "'ip parsed \<Rightarrow> bytes" where
  "Buffer q = q_b q"

definition Payload :: "'ip parsed \<Rightarrow> bytes option" where
  "Payload q = slice (q_b q) (q_dataofs q) (q_length q)"

definition IsTCPSyn :: "'ip parsed \<Rightarrow> bool" where
  "IsTCPSyn q \<longleftrightarrow> TCPFlags q AND TCPSynAck = TCPSyn"

definition IsError :: "'ip parsed \<Rightarrow> bool" where
  "IsError q =
     (if IPProto q = ICMPv4
      then if length (q_b q) < q_subofs q + 8 then False
           else let t = q_b q ! q_subofs q in t = ICMP4Unreachable \<or> t = ICMP4TimeExceeded
      else if IPProto q = ICMPv6
      then if length (q_b q) < q_subofs q + 8 then False
           else let t = q_b q ! q_subofs q in t = ICMP6Unreachable \<or> t = ICMP6TimeExceeded
      else False)"

definition IsEchoRequest :: "'ip parsed \<Rightarrow> bool" where
  "IsEchoRequest q =
     (if IPProto q = ICMPv4
      then q_subofs q + 8 \<le> length (q_b q) \<and> q_b q ! q_subofs q = ICMP4EchoRequest \<and>
           q_b q ! (q_subofs q + 1) = ICMP4NoCode
      else if IPProto q = ICMPv6
      then q_subofs q + 8 \<le> length (q_b q) \<and> q_b q ! q_subofs q = ICMP6EchoRequest \<and>
           q_b q ! (q_subofs q + 1) = ICMP6NoCode
      else False)"

definition IsEchoResponse :: "'ip parsed \<Rightarrow> bool" where
  "IsEchoResponse q =
     (if IPProto q = ICMPv4
      then q_subofs q + 8 \<le> length (q_b q) \<and> q_b q ! q_subofs q = ICMP4EchoReply \<and>
           q_b q ! (q_subofs q + 1) = ICMP4NoCode
      else if IPProto q = ICMPv6
      then q_subofs q + 8 \<le> length (q_b q) \<and> q_b q ! q_subofs q = ICMP6EchoReply \<and>
           q_b q ! (q_subofs q + 1) = ICMP6NoCode
      else False)"

section \<open>Decoding without panics, and what it establishes\<close>

lemma u16_at_eq: "j = i + 2 \<Longrightarrow> j \<le> length b \<Longrightarrow> u16_at b i j = Some (be16 (b ! i) (b ! (i + 1)))"
  by (simp add: u16_at_def go_defs)

lemma u16_at_eqs:
  "2 \<le> length b \<Longrightarrow> u16_at b 0 2 = Some (be16 (b ! 0) (b ! 1))"
  "4 \<le> length b \<Longrightarrow> u16_at b 2 4 = Some (be16 (b ! 2) (b ! 3))"
  "6 \<le> length b \<Longrightarrow> u16_at b 4 6 = Some (be16 (b ! 4) (b ! 5))"
  "8 \<le> length b \<Longrightarrow> u16_at b 6 8 = Some (be16 (b ! 6) (b ! 7))"
  by (simp_all add: u16_at_eq)

lemma set_ports_eq:
  "4 \<le> length sub \<Longrightarrow> set_ports q sub =
   Some (q\<lparr>q_Src := WithPort (q_Src q) (be16 (sub ! 0) (sub ! 1)),
            q_Dst := WithPort (q_Dst q) (be16 (sub ! 2) (sub ! 3))\<rparr>)"
  by (simp add: set_ports_def u16_at_eqs)

lemmas decode_sub_defs = decode_tcp_def decode_udp_def decode_sctp_def decode_icmp_def
  decode4_first_def decode6_sub_def unknown_proto_def

text \<open>
  What every decoder of a transport header leaves in place, and what it records. \<open>sub_ok\<close> is
  the relation between the record before, the bytes after the IP header, and the record after.
\<close>

definition sub_ok :: "'ip parsed \<Rightarrow> bytes \<Rightarrow> 'ip parsed \<Rightarrow> bool" where
  "sub_ok q sub q' \<longleftrightarrow>
     q_b q' = q_b q \<and> q_subofs q' = q_subofs q \<and> q_length q' = q_length q \<and>
     IPVersion q' = IPVersion q \<and>
     ipp_IP (q_Src q') = ipp_IP (q_Src q) \<and> ipp_IP (q_Dst q') = ipp_IP (q_Dst q) \<and>
     (IPProto q' = Unknown \<or> IPProto q' = IPProto q) \<and>
     (IPProto q' \<in> {TCP, UDP, SCTP} \<longrightarrow>
        8 \<le> length sub \<and>
        ipp_Port (q_Src q') = be16 (sub ! 0) (sub ! 1) \<and>
        ipp_Port (q_Dst q') = be16 (sub ! 2) (sub ! 3)) \<and>
     (IPProto q' = TCP \<longrightarrow> 20 \<le> length sub \<and> TCPFlags q' = (sub ! 13) AND 0x3F) \<and>
     (IPProto q' = TSMP \<longrightarrow> q_dataofs q' = q_subofs q')"

lemma decode_sub_total:
  "\<exists>q'. decode4_first q sub = Some q' \<and> sub_ok q sub q'"
  "\<exists>q'. decode6_sub q sub = Some q' \<and> sub_ok q sub q'"
  unfolding decode_sub_defs sub_ok_def
  by (auto simp: set_ports_eq go_defs header_length_defs)

lemma decode4_frag_total:
  "\<exists>q'. decode4_frag q sub f = Some q' \<and>
        (sub_ok q sub q' \<or> q' = q\<lparr>IPProto := Fragment\<rparr>)"
  using decode_sub_total(1) [of q sub]
  by (auto simp: decode4_frag_def Let_def unknown_proto_def sub_ok_def)

definition parsed_wf :: "'ip parsed \<Rightarrow> bool" where
  "parsed_wf q \<longleftrightarrow>
     (IPProto q \<noteq> Unknown \<longrightarrow>
        (IPVersion q = 4 \<or> IPVersion q = 6) \<and>
        q_subofs q \<le> q_length q \<and> q_length q \<le> length (q_b q) \<and> 20 \<le> length (q_b q) \<and>
        (IPProto q \<in> {TCP, UDP, SCTP} \<longrightarrow>
           q_subofs q + 8 \<le> length (q_b q) \<and>
           ipp_Port (q_Src q) = be16 (q_b q ! q_subofs q) (q_b q ! (q_subofs q + 1)) \<and>
           ipp_Port (q_Dst q) = be16 (q_b q ! (q_subofs q + 2)) (q_b q ! (q_subofs q + 3))) \<and>
        (IPProto q = TCP \<longrightarrow>
           q_subofs q + 20 \<le> length (q_b q) \<and> TCPFlags q = (q_b q ! (q_subofs q + 13)) AND 0x3F) \<and>
        (IPProto q = TSMP \<longrightarrow> q_dataofs q = q_subofs q))"

lemma sub_ok_wf:
  assumes "sub_ok q (drop (q_subofs q) (q_b q)) q'"
    and "IPVersion q = 4 \<or> IPVersion q = 6" and "20 \<le> length (q_b q)"
    and "q_subofs q \<le> q_length q" and "q_length q \<le> length (q_b q)"
  shows "parsed_wf q'"
proof -
  have sz: "k \<le> length (drop (q_subofs q) (q_b q)) \<longleftrightarrow> q_subofs q + k \<le> length (q_b q)" for k
    using assms(4,5) by auto
  have at: "drop (q_subofs q) (q_b q) ! k = q_b q ! (q_subofs q + k)" for k
    using assms(4,5) by simp
  show ?thesis
    using assms unfolding sub_ok_def parsed_wf_def sz at by auto
qed

lemma parsed_wf_Unknown [simp]: "IPProto q = Unknown \<Longrightarrow> parsed_wf q"
  by (simp add: parsed_wf_def)

text \<open>The IPv4 decoder in closed form: the record it hands to the fragment logic.\<close>

definition ip4_fields :: "'ip netaddr \<Rightarrow> 'ip parsed \<Rightarrow> bytes \<Rightarrow> 'ip parsed" where
  "ip4_fields na q b =
     q\<lparr>IPProto := b ! 9, q_length := unat (be16 (b ! 2) (b ! 3)),
       q_Src := WithIP (q_Src q) (na_IPv4 na (b ! 12) (b ! 13) (b ! 14) (b ! 15)),
       q_Dst := WithIP (q_Dst q) (na_IPv4 na (b ! 16) (b ! 17) (b ! 18) (b ! 19)),
       q_subofs := unat (push_bit 2 (b ! 0 AND 0x0F))\<rparr>"

lemma idx_in: "n \<le> length b \<Longrightarrow> i < n \<Longrightarrow> idx b i = Some (b ! i)"
  by (simp add: idx_def)

lemma decode4_eq:
  assumes "20 \<le> length b"
  shows "decode4 na q b =
    (let q1 = ip4_fields na q b
     in if length b < q_length q1
        then Some (q\<lparr>IPProto := Unknown, q_length := q_length q1\<rparr>)
        else if q_length q1 < q_subofs q1 then Some (unknown_proto q1)
        else decode4_frag q1 (drop (q_subofs q1) b) (be16 (b ! 6) (b ! 7)))"
proof -
  note i = idx_in [OF assms]
  have i20: "idx b 0 = Some (b ! 0)" "idx b 9 = Some (b ! 9)" "idx b 12 = Some (b ! 12)"
    "idx b 13 = Some (b ! 13)" "idx b 14 = Some (b ! 14)" "idx b 15 = Some (b ! 15)"
    "idx b 16 = Some (b ! 16)" "idx b 17 = Some (b ! 17)" "idx b 18 = Some (b ! 18)"
    "idx b 19 = Some (b ! 19)"
    by (simp_all add: i)
  have u: "u16_at b 2 4 = Some (be16 (b ! 2) (b ! 3))" "u16_at b 6 8 = Some (be16 (b ! 6) (b ! 7))"
    using assms by (simp_all add: u16_at_eqs)
  have "\<not> length b < ip4HeaderLength"
    using assms by (simp add: ip4HeaderLength_def)
  then show ?thesis
    by (simp add: decode4_def i20 u Let_def unknown_proto_def ip4_fields_def slice_from_def)
qed

lemma decode4_frag_wf:
  assumes "IPVersion q = 4" "20 \<le> length (q_b q)" "q_subofs q \<le> q_length q"
    "q_length q \<le> length (q_b q)"
  shows "\<exists>q'. decode4_frag q (drop (q_subofs q) (q_b q)) f = Some q' \<and> parsed_wf q' \<and> q_b q' = q_b q"
proof -
  obtain q' where q': "decode4_frag q (drop (q_subofs q) (q_b q)) f = Some q'"
    "sub_ok q (drop (q_subofs q) (q_b q)) q' \<or> q' = q\<lparr>IPProto := Fragment\<rparr>"
    using decode4_frag_total by blast
  from q'(2) have "parsed_wf q' \<and> q_b q' = q_b q"
  proof
    assume sub: "sub_ok q (drop (q_subofs q) (q_b q)) q'"
    then have "q_b q' = q_b q" by (simp add: sub_ok_def)
    with sub_ok_wf [OF sub] assms show ?thesis by simp
  next
    assume "q' = q\<lparr>IPProto := Fragment\<rparr>"
    then show ?thesis using assms by (simp add: parsed_wf_def)
  qed
  with q'(1) show ?thesis by blast
qed

lemma decode4_wf:
  assumes "q_b q = b" and "IPVersion q = 4"
  shows "\<exists>q'. decode4 na q b = Some q' \<and> parsed_wf q' \<and> q_b q' = b"
proof (cases "length b < 20")
  case True
  then show ?thesis
    using assms by (simp add: decode4_def header_length_defs)
next
  case False
  define q1 where "q1 = ip4_fields na q b"
  have q1: "q_b q1 = b" "IPVersion q1 = 4" "20 \<le> length b"
    using False assms by (simp_all add: q1_def ip4_fields_def)
  show ?thesis
    using decode4_frag_wf [of q1] q1 assms(1)
    unfolding decode4_eq [OF q1(3)] Let_def q1_def [symmetric]
    by (simp add: unknown_proto_def not_less)
qed

lemma decode6_wf:
  assumes "q_b q = b" and "IPVersion q = 6"
  shows "\<exists>q'. decode6 na q b = Some q' \<and> parsed_wf q' \<and> q_b q' = b"
proof (cases "length b < 40 \<or> length b < unat (be16 (b ! 4) (b ! 5)) + 40")
  case True
  then show ?thesis
    using assms
    by (auto simp: decode6_def header_length_defs idx_def u16_at_eqs unknown_proto_def)
next
  case False
  define q1 where "q1 = q\<lparr>IPProto := b ! 6, q_length := unat (be16 (b ! 4) (b ! 5)) + 40,
     q_Src := WithIP (q_Src q) (fst (na_FromStdIP na (take 16 (drop 8 b)))),
     q_Dst := WithIP (q_Dst q) (fst (na_FromStdIP na (take 16 (drop 24 b)))),
     q_subofs := 40\<rparr>"
  have q1: "q_b q1 = b" "IPVersion q1 = 6" "20 \<le> length b" "q_subofs q1 \<le> q_length q1"
    "q_length q1 \<le> length b"
    using False assms by (simp_all add: q1_def)
  have eq: "decode6 na q b = decode6_sub q1 (drop (q_subofs q1) b)"
    using False
    by (simp add: decode6_def header_length_defs idx_def u16_at_eqs slice_from_def slice_def q1_def)
  obtain q' where q': "decode6 na q b = Some q'" "sub_ok q1 (drop (q_subofs q1) (q_b q1)) q'"
    using decode_sub_total(2) [of q1] unfolding eq q1(1) by metis
  then have "parsed_wf q' \<and> q_b q' = b"
    using sub_ok_wf [of q1 q'] q1 by (auto simp: sub_ok_def)
  then show ?thesis using q'(1) by blast
qed

lemma Decode_wf: "\<exists>q'. Decode na q b = Some q' \<and> parsed_wf q' \<and> q_b q' = b"
  using decode4_wf [of "q\<lparr>q_b := b, IPVersion := 4\<rparr>" b na]
    decode6_wf [of "q\<lparr>q_b := b, IPVersion := 6\<rparr>" b na]
  by (auto simp: Decode_def Let_def idx_def parsed_wf_def)

lemma decode4_addrs:
  assumes "20 \<le> length b" "decode4 na q b = Some q'" "IPProto q' \<noteq> Unknown"
  shows "ipp_IP (q_Src q') = na_IPv4 na (b ! 12) (b ! 13) (b ! 14) (b ! 15) \<and>
    ipp_IP (q_Dst q') = na_IPv4 na (b ! 16) (b ! 17) (b ! 18) (b ! 19)"
proof -
  let ?q1 = "ip4_fields na q b"
  have a: "ipp_IP (q_Src ?q1) = na_IPv4 na (b ! 12) (b ! 13) (b ! 14) (b ! 15)"
    "ipp_IP (q_Dst ?q1) = na_IPv4 na (b ! 16) (b ! 17) (b ! 18) (b ! 19)"
    by (simp_all add: ip4_fields_def)
  show ?thesis
    using assms(2,3) decode4_frag_total [of ?q1 "drop (q_subofs ?q1) b" "be16 (b ! 6) (b ! 7)"] a
    unfolding decode4_eq [OF assms(1)] Let_def
    by (auto simp: unknown_proto_def sub_ok_def split: if_splits)
qed

lemma decode6_version:
  assumes "IPVersion q = 6" "decode6 na q b = Some q'"
  shows "IPVersion q' = 6 \<or> IPVersion q' = 0"
proof -
  have "IPVersion r' = IPVersion r" if "decode6_sub r sub = Some r'" for r r' :: "'a parsed" and sub
    using decode_sub_total(2) [of r sub] that by (auto simp: sub_ok_def)
  note sub = this
  show ?thesis using assms
    by (auto simp: decode6_def Let_def unknown_proto_def split: if_splits Option.bind_splits dest!: sub)
qed

text \<open>The addresses of a decoded IPv4 packet are IPv4 addresses.\<close>

lemma Decode_v4_addrs:
  assumes "Decode na q b = Some q'" "IPVersion q' = 4" "IPProto q' \<noteq> Unknown"
  shows "\<exists>s0 s1 s2 s3 d0 d1 d2 d3. ipp_IP (q_Src q') = na_IPv4 na s0 s1 s2 s3 \<and> ipp_IP (q_Dst q') = na_IPv4 na d0 d1 d2 d3"
proof -
  have "20 \<le> length b" using Decode_wf [of na q b] assms by (auto simp: parsed_wf_def)
  then show ?thesis
    using assms decode6_version [of "q\<lparr>q_b := b, IPVersion := 6\<rparr>" na b q']
    by (fastforce simp: Decode_def Let_def split: if_splits Option.bind_splits dest!: decode4_addrs [rotated])
qed

lemma Payload_TSMP:
  assumes "parsed_wf q" and "IPProto q = TSMP"
  shows "Payload q = Some (take (q_length q - q_subofs q) (drop (q_subofs q) (q_b q)))"
  using assms by (simp add: parsed_wf_def Payload_def slice_def)

section \<open>Properties\<close>

text \<open>
  C1. \<^verbatim>\<open>Decode\<close> returns for every byte string, without an out-of-range access, and leaves a
  well-formed \<^verbatim>\<open>Parsed\<close>: when it recognises a protocol, the IP version is 4 or 6, the header offset
  and the length lie inside the packet, and the ports are those of the transport header.
\<close>

theorem Decode_total: "\<exists>q'. Decode na q b = Some q' \<and> parsed_wf q' \<and> q_b q' = b"
  by (rule Decode_wf)

lemma no_more_frags_bit:
  fixes f :: u16
  assumes "f AND 0x1FFF = 0"
  shows "f AND 0x20 = 0"
proof -
  have "f AND 0x20 = (f AND 0x1FFF) AND 0x20" by (simp add: and.assoc)
  then show ?thesis using assms by simp
qed

text \<open>
  The test for a first fragment that is too short to hold its ports never fires: the mask
  \<^verbatim>\<open>0x20\<close> lies inside the fragment offset, so with offset zero the packet is decoded as a whole
  packet, whether the more-fragments bit \<^verbatim>\<open>0x2000\<close> is set or not and however short it is.
\<close>

theorem first_fragment_not_dropped:
  assumes "f AND 0x1FFF = 0"
  shows "decode4_frag q sub f = decode4_first q sub"
  using assms no_more_frags_bit [OF assms] by (simp add: decode4_frag_def Let_def)

theorem first_fragment_not_dropped_witness:
  "decode4_frag (zero_parsed ZeroIP) [1, 2, 3] 0x2000 = decode4_first (zero_parsed ZeroIP) [1, 2, 3] \<and>
   length [1 :: u8, 2, 3] < minFrag"
  using first_fragment_not_dropped [of "0x2000" "zero_parsed ZeroIP" "[1, 2, 3]"]
  by (simp add: minFrag_def header_length_defs)

text \<open>
  \<^verbatim>\<open>Payload\<close> of a decoded TSMP packet never panics: the slice bounds are in order.
\<close>

theorem Payload_TSMP_safe:
  assumes "Decode na q b = Some q'" and "IPProto q' = TSMP"
  shows "Payload q' = Some (take (q_length q' - q_subofs q') (drop (q_subofs q') b))"
  using assms Decode_wf [of na q b] Payload_TSMP [of q'] by auto

theorem Payload_TSMP_safe_witness:
  "\<exists>q'. Decode addr_netaddr (zero_parsed ZeroIP)
     [0x45, 0, 0, 22, 0, 0, 0, 0, 64, 99, 0, 0, 1, 2, 3, 4, 5, 6, 7, 8, 9, 10, 11] = Some q' \<and>
   Payload q' = Some [9, 10]"
proof -
  let ?b = "[0x45, 0, 0, 22, 0, 0, 0, 0, 64, 99, 0, 0, 1, 2, 3, 4, 5, 6, 7, 8, 9, 10, 11] :: bytes"
  have "case Decode addr_netaddr (zero_parsed ZeroIP) ?b of None \<Rightarrow> False
      | Some q' \<Rightarrow> IPProto q' = TSMP \<and> q_length q' = 22 \<and> q_subofs q' = 20"
    by code_simp
  then obtain q' where q: "Decode addr_netaddr (zero_parsed ZeroIP) ?b = Some q'" "IPProto q' = TSMP"
      "q_length q' = 22" "q_subofs q' = 20"
    by (auto split: option.splits)
  from Payload_TSMP_safe [OF q(1,2)] q show ?thesis by simp
qed

text \<open>
  \<^verbatim>\<open>Payload\<close> of a decoded UDP packet can panic: the data offset is taken from the bytes present and
  the end from the IP total length, and nothing relates the two.
\<close>

theorem Payload_UDP_can_panic:
  "\<exists>b q'. Decode addr_netaddr (zero_parsed ZeroIP) b = Some q' \<and> IPProto q' = UDP \<and> Payload q' = None"
proof -
  let ?b = "[0x45, 0, 0, 20, 0, 0, 0, 0, 64, 17, 0, 0, 1, 2, 3, 4, 5, 6, 7, 8, 0, 53, 0, 53, 0, 8, 0, 0] :: bytes"
  have "case Decode addr_netaddr (zero_parsed ZeroIP) ?b of None \<Rightarrow> False
      | Some q' \<Rightarrow> IPProto q' = UDP \<and> Payload q' = None"
    by code_simp
  then show ?thesis by (auto split: option.splits)
qed

end
