(* ===== verification/Tsmp.thy ===== *)
theory Tsmp
  imports Headers Flowtrack
begin

text \<open>
  The inter-node message protocol of \<^verbatim>\<open>net/packet/tsmp.go\<close>: rejection notices, pings and pongs,
  their wire format, and the round trip of each through \<^verbatim>\<open>Generate\<close> and \<^verbatim>\<open>Decode\<close>.

  A parser that returns a value and a flag \<^verbatim>\<open>ok\<close> is an optional value here, inside the option
  that stands for a panic. The field \<^verbatim>\<open>IPHeader\<close> of a pong has the interface type \<^verbatim>\<open>Header\<close>: the
  operations on pongs take the two methods of its dynamic type as arguments.
\<close>

section \<open>Messages\<close>

definition TSMPTypeRejectedConn :: u8 where "TSMPTypeRejectedConn = 33"
definition TSMPTypePing :: u8 where "TSMPTypePing = 112"
definition TSMPTypePong :: u8 where "TSMPTypePong = 111"

definition TailscaleRejectReasonNone :: u8 where "TailscaleRejectReasonNone = 0"
definition RejectedDueToACLs :: u8 where "RejectedDueToACLs = 65"
definition RejectedDueToShieldsUp :: u8 where "RejectedDueToShieldsUp = 83"
definition RejectedDueToIPForwarding :: u8 where "RejectedDueToIPForwarding = 70"
definition RejectedDueToHostFirewall :: u8 where "RejectedDueToHostFirewall = 87"

definition IsZero :: "u8 \<Rightarrow> bool" where
  "IsZero r \<longleftrightarrow> r = TailscaleRejectReasonNone"

definition rejectFlagBitMaybeBroken :: u8 where "rejectFlagBitMaybeBroken = 0x1"

lemmas tsmp_type_defs = TSMPTypeRejectedConn_def TSMPTypePing_def TSMPTypePong_def

record 'ip rejected =
  rh_IPSrc :: "'ip"
  rh_IPDst :: "'ip"
  rh_Src :: "'ip ipport"
  rh_Dst :: "'ip ipport"
  rh_Proto :: u8
  rh_Reason :: u8
  rh_MaybeBroken :: bool

definition Flow :: "'ip rejected \<Rightarrow> 'ip tuple" where
  "Flow h = Tuple (rh_Proto h) (rh_Src h) (rh_Dst h)"

definition hasFlags :: "'ip rejected \<Rightarrow> bool" where
  "hasFlags h \<longleftrightarrow> rh_MaybeBroken h"

definition len_Rejected :: "'ip netaddr \<Rightarrow> 'ip rejected \<Rightarrow> nat" where
  "len_Rejected na h =
     (let v = 1 + 1 + 1 + 2 * 2;
          v = (if na_Is4 na (rh_IPSrc h) then v + ip4HeaderLength
               else if na_Is6 na (rh_IPSrc h) then v + ip6HeaderLength else v)
      in if hasFlags h then v + 1 else v)"

text \<open>The message itself, written from offset \<open>o\<close>, where the slice \<^verbatim>\<open>buf\<close> starts after the IP header.\<close>

definition put_rejected :: "'ip rejected \<Rightarrow> bytes \<Rightarrow> nat \<Rightarrow> marshal_result" where
  "put_rejected h buf ofs =
     do { buf \<leftarrow> set_idx buf (ofs + 0) TSMPTypeRejectedConn;
          buf \<leftarrow> set_idx buf (ofs + 1) (rh_Proto h);
          buf \<leftarrow> set_idx buf (ofs + 2) (rh_Reason h);
          buf \<leftarrow> put_u16 buf (ofs + 3) (ipp_Port (rh_Src h));
          buf \<leftarrow> put_u16 buf (ofs + 5) (ipp_Port (rh_Dst h));
          if hasFlags h
          then do { let flags = (if rh_MaybeBroken h then 0 OR rejectFlagBitMaybeBroken else 0);
                    buf \<leftarrow> set_idx buf (ofs + 7) flags;
                    Some (None, buf) }
          else Some (None, buf) }"

definition marshal_Rejected :: "'ip netaddr \<Rightarrow> 'ip rejected \<Rightarrow> bytes \<Rightarrow> marshal_result" where
  "marshal_Rejected na h buf =
     (if length buf < len_Rejected na h then Some (Some errSmallBuffer, buf)
      else if maxPacketLength < length buf then Some (Some errLargePacket, buf)
      else if na_Is4 na (ipp_IP (rh_Src h))
      then do { let iph = \<lparr>h4_IPProto = TSMP, h4_IPID = 0, h4_Src = rh_IPSrc h, h4_Dst = rh_IPDst h\<rparr>;
                (_, buf) \<leftarrow> marshal_IP4 na iph buf;
                _ \<leftarrow> slice_from buf ip4HeaderLength;
                put_rejected h buf ip4HeaderLength }
      else if na_Is6 na (ipp_IP (rh_Src h))
      then do { let iph = \<lparr>h6_IPProto = TSMP, h6_IPID = 0, h6_Src = rh_IPSrc h, h6_Dst = rh_IPDst h\<rparr>;
                (_, buf) \<leftarrow> marshal_IP6 na iph buf;
                _ \<leftarrow> slice_from buf ip6HeaderLength;
                put_rejected h buf ip6HeaderLength }
      else Some (Some errBogusSrc, buf))"

definition AsTailscaleRejectedHeader :: "'ip parsed \<Rightarrow> 'ip rejected option option" where
  "AsTailscaleRejectedHeader pp =
     do { p \<leftarrow> Payload pp;
          if length p < 7 then Some None
          else do {
            t \<leftarrow> idx p 0;
            if t \<noteq> TSMPTypeRejectedConn then Some None
            else do {
              proto \<leftarrow> idx p 1;
              reason \<leftarrow> idx p 2;
              sp \<leftarrow> u16_at p 3 5;
              dp \<leftarrow> u16_at p 5 7;
              let h = \<lparr>rh_IPSrc = ipp_IP (q_Src pp), rh_IPDst = ipp_IP (q_Dst pp),
                       rh_Src = IPPort (ipp_IP (q_Dst pp)) sp, rh_Dst = IPPort (ipp_IP (q_Src pp)) dp,
                       rh_Proto = proto, rh_Reason = reason, rh_MaybeBroken = False\<rparr>;
              if length p > 7
              then do { flags \<leftarrow> idx p 7;
                        Some (Some (h\<lparr>rh_MaybeBroken := flags AND rejectFlagBitMaybeBroken \<noteq> 0\<rparr>)) }
              else Some (Some h) } } }"

record ping =
  ping_Data :: bytes

definition AsTSMPPing :: "'ip parsed \<Rightarrow> ping option option" where
  "AsTSMPPing pp =
     (if IPProto pp \<noteq> TSMP then Some None
      else do {
        p \<leftarrow> Payload pp;
        if length p < 9 then Some None
        else do {
          t \<leftarrow> idx p 0;
          if t \<noteq> TSMPTypePing then Some None
          else do { d \<leftarrow> slice_from p 1;
                    Some (Some \<lparr>ping_Data = take 8 d\<rparr>) } } })"

record 'h pong =
  pong_IPHeader :: 'h
  pong_Data :: bytes
  pong_PeerAPIPort :: u16

definition AsTSMPPong :: "'ip parsed \<Rightarrow> unit pong option option" where
  "AsTSMPPong pp =
     (if IPProto pp \<noteq> TSMP then Some None
      else do {
        p \<leftarrow> Payload pp;
        if length p < 9 then Some None
        else do {
          t \<leftarrow> idx p 0;
          if t \<noteq> TSMPTypePong then Some None
          else do {
            d \<leftarrow> slice_from p 1;
            let pong = \<lparr>pong_IPHeader = (), pong_Data = take 8 d, pong_PeerAPIPort = 0\<rparr>;
            if length p \<ge> 11
            then do { r \<leftarrow> slice_from p 9;
                      port \<leftarrow> Uint16 r;
                      Some (Some (pong\<lparr>pong_PeerAPIPort := port\<rparr>)) }
            else Some (Some pong) } } })"

definition len_Pong :: "('h \<Rightarrow> nat) \<Rightarrow> 'h pong \<Rightarrow> nat" where
  "len_Pong hlen h = hlen (pong_IPHeader h) + 11"

definition marshal_Pong :: "('h \<Rightarrow> nat) \<Rightarrow> ('h \<Rightarrow> bytes \<Rightarrow> marshal_result) \<Rightarrow> 'h pong \<Rightarrow> bytes \<Rightarrow> marshal_result" where
  "marshal_Pong hlen marshal h buf =
     (if length buf < len_Pong hlen h then Some (Some errSmallBuffer, buf)
      else do {
        (err, buf) \<leftarrow> marshal (pong_IPHeader h) buf;
        case err of
          Some e \<Rightarrow> Some (Some e, buf)
        | None \<Rightarrow> do {
            let ofs = hlen (pong_IPHeader h);
            _ \<leftarrow> slice_from buf ofs;
            buf \<leftarrow> set_idx buf (ofs + 0) TSMPTypePong;
            buf \<leftarrow> copy_at buf (ofs + 1) (length buf) (pong_Data h);
            buf \<leftarrow> put_u16 buf (ofs + 9) (pong_PeerAPIPort h);
            Some (None, buf) } })"

section \<open>Closed forms and the Header contract\<close>

definition rejected_bytes :: "'ip rejected \<Rightarrow> bytes" where
  "rejected_bytes h =
     [33, rh_Proto h, rh_Reason h, hi8 (ipp_Port (rh_Src h)), lo8 (ipp_Port (rh_Src h)),
      hi8 (ipp_Port (rh_Dst h)), lo8 (ipp_Port (rh_Dst h))] @ (if rh_MaybeBroken h then [1] else [])"

lemma length_rejected_bytes: "length (rejected_bytes h) = (if rh_MaybeBroken h then 8 else 7)"
  by (simp add: rejected_bytes_def)

lemma put_rejected_eq:
  assumes "length pre = ofs" and "length (rejected_bytes h) \<le> length rest"
  shows "put_rejected h (pre @ rest) ofs =
    Some (None, pre @ rejected_bytes h @ drop (length (rejected_bytes h)) rest)"
proof -
  have "7 \<le> length rest" using assms(2) by (simp add: length_rejected_bytes split: if_splits)
  then obtain z0 z1 z2 z3 z4 z5 z6 r where r: "rest = [z0, z1, z2, z3, z4, z5, z6] @ r"
    by (auto simp: numeral_eq_Suc Suc_le_length_iff)
  show ?thesis
  proof (cases "rh_MaybeBroken h")
    case True
    then obtain z7 r' where "r = z7 # r'"
      using assms(2) by (cases r) (simp_all add: r rejected_bytes_def)
    then show ?thesis
      using True assms(1)
      by (simp add: put_rejected_def hasFlags_def set_idx_def put_u16_def list_update_append r rejected_bytes_def
          TSMPTypeRejectedConn_def rejectFlagBitMaybeBroken_def)
  next
    case False
    then show ?thesis
      using assms(1)
      by (simp add: put_rejected_def hasFlags_def set_idx_def put_u16_def list_update_append r rejected_bytes_def
          TSMPTypeRejectedConn_def)
  qed
qed

text \<open>The addresses of the notice and of the rejected flow are of one family.\<close>

definition valid_rejected :: "'ip netaddr \<Rightarrow> 'ip rejected \<Rightarrow> bool" where
  "valid_rejected na h \<longleftrightarrow> netaddr_laws na \<and>
     (na_Is4 na (rh_IPSrc h) \<and> na_Is4 na (rh_IPDst h) \<and> na_Is4 na (ipp_IP (rh_Src h)) \<or>
      na_Is6 na (rh_IPSrc h) \<and> na_Is6 na (ipp_IP (rh_Src h)))"

lemma marshal_Rejected_4:
  assumes "netaddr_laws na" and "na_Is4 na (rh_IPSrc h)" "na_Is4 na (rh_IPDst h)" "na_Is4 na (ipp_IP (rh_Src h))"
    and "len_Rejected na h \<le> length buf" "length buf \<le> 65535"
  obtains s0 s1 s2 s3 d0 d1 d2 d3 where
    "rh_IPSrc h = na_IPv4 na s0 s1 s2 s3" "rh_IPDst h = na_IPv4 na d0 d1 d2 d3"
    "len_Rejected na h = 20 + length (rejected_bytes h)"
    "marshal_Rejected na h buf =
       Some (None, ip4_header_bytes (of_nat (length buf)) 0 TSMP [s0, s1, s2, s3] [d0, d1, d2, d3] @
         rejected_bytes h @ drop (len_Rejected na h) buf)"
proof -
  let ?ih = "\<lparr>h4_IPProto = TSMP, h4_IPID = 0, h4_Src = rh_IPSrc h, h4_Dst = rh_IPDst h\<rparr>"
  have "valid_ip4 na ?ih" using assms by (simp add: valid_ip4_def)
  then obtain s0 s1 s2 s3 d0 d1 d2 d3 where a:
    "h4_Src ?ih = na_IPv4 na s0 s1 s2 s3" "h4_Dst ?ih = na_IPv4 na d0 d1 d2 d3"
    "na_Is4 na (h4_Src ?ih)" "na_Is4 na (h4_Dst ?ih)"
    "na_As4 na (h4_Src ?ih) = Some [s0, s1, s2, s3]" "na_As4 na (h4_Dst ?ih) = Some [d0, d1, d2, d3]"
    by (rule valid_ip4E)
  have len: "len_Rejected na h = 20 + length (rejected_bytes h)"
    using assms(2) by (simp add: len_Rejected_def hasFlags_def ip4HeaderLength_def length_rejected_bytes)
  have "20 \<le> length buf" using len assms(5) by simp
  note ip = marshal_IP4_eq [OF this assms(6) a(3-6)]
  have "marshal_Rejected na h buf =
     put_rejected h (ip4_header_bytes (of_nat (length buf)) 0 TSMP [s0, s1, s2, s3] [d0, d1, d2, d3] @ drop 20 buf) 20"
    using assms(4-6) by (simp add: marshal_Rejected_def ip maxPacketLength_def ip4HeaderLength_def slice_from_def)
  also have "\<dots> = Some (None, ip4_header_bytes (of_nat (length buf)) 0 TSMP [s0, s1, s2, s3] [d0, d1, d2, d3] @
         rejected_bytes h @ drop (len_Rejected na h) buf)"
    using assms(5) len by (subst put_rejected_eq) (auto simp: add.commute)
  finally show thesis using that a(1,2) len by simp
qed

lemma marshal_Rejected_6:
  assumes "netaddr_laws na" and "na_Is6 na (rh_IPSrc h)" "na_Is6 na (ipp_IP (rh_Src h))"
    and "len_Rejected na h \<le> length buf" "length buf \<le> 65535"
  shows "len_Rejected na h = 40 + length (rejected_bytes h)"
    "marshal_Rejected na h buf =
       Some (None, ip6_header_bytes (of_nat (length buf - 40)) 0 TSMP (na_As16 na (rh_IPSrc h)) (na_As16 na (rh_IPDst h)) @
         rejected_bytes h @ drop (len_Rejected na h) buf)"
proof -
  let ?ih = "\<lparr>h6_IPProto = TSMP, h6_IPID = 0, h6_Src = rh_IPSrc h, h6_Dst = rh_IPDst h\<rparr>"
  let ?hb = "ip6_header_bytes (of_nat (length buf - 40)) 0 TSMP (na_As16 na (rh_IPSrc h)) (na_As16 na (rh_IPDst h))"
  have n4: "\<not> na_Is4 na (rh_IPSrc h)" "\<not> na_Is4 na (ipp_IP (rh_Src h))"
    using assms(1-3) not_Is4_and_Is6 by metis+
  show len: "len_Rejected na h = 40 + length (rejected_bytes h)"
    using assms(2) n4 by (simp add: len_Rejected_def hasFlags_def ip6HeaderLength_def length_rejected_bytes)
  have "40 \<le> length buf" using len assms(4) by simp
  note ip = marshal_IP6_eq [OF assms(1) this assms(5), of ?ih]
  have l: "length ?hb = 40" using assms(1) by (simp add: length_As16)
  have "marshal_Rejected na h buf = put_rejected h (?hb @ drop 40 buf) 40"
    using assms(3-5) n4 l
    by (simp add: marshal_Rejected_def ip maxPacketLength_def ip6HeaderLength_def slice_from_def del: of_nat_diff)
  also have "\<dots> = Some (None, ?hb @ rejected_bytes h @ drop (len_Rejected na h) buf)"
    using assms(4) len l by (subst put_rejected_eq) (auto simp: add.commute)
  finally show "marshal_Rejected na h buf = Some (None, ?hb @ rejected_bytes h @ drop (len_Rejected na h) buf)" .
qed

interpretation rejected: header_codec "len_Rejected na" "marshal_Rejected na" "valid_rejected na"
  for na :: "'ip netaddr"
proof unfold_locales
  fix h :: "'ip rejected" and buf :: bytes
  assume v: "valid_rejected na h" "len_Rejected na h \<le> length buf" "length buf \<le> maxPacketLength"
  then have laws: "netaddr_laws na" and len: "length buf \<le> 65535"
    by (auto simp: valid_rejected_def maxPacketLength_def)
  consider "na_Is4 na (rh_IPSrc h)" "na_Is4 na (rh_IPDst h)" "na_Is4 na (ipp_IP (rh_Src h))"
    | "na_Is6 na (rh_IPSrc h)" "na_Is6 na (ipp_IP (rh_Src h))"
    using v(1) by (auto simp: valid_rejected_def)
  then show "\<exists>hd. length hd = len_Rejected na h \<and>
      marshal_Rejected na h buf = Some (None, hd @ drop (len_Rejected na h) buf)"
  proof cases
    case 1
    obtain s0 s1 s2 s3 d0 d1 d2 d3 where "len_Rejected na h = 20 + length (rejected_bytes h)"
      "marshal_Rejected na h buf =
         Some (None, ip4_header_bytes (of_nat (length buf)) 0 TSMP [s0, s1, s2, s3] [d0, d1, d2, d3] @
           rejected_bytes h @ drop (len_Rejected na h) buf)"
      by (rule marshal_Rejected_4 [OF laws 1 v(2) len])
    then show ?thesis
      by (intro exI [of _ "ip4_header_bytes (of_nat (length buf)) 0 TSMP [s0, s1, s2, s3] [d0, d1, d2, d3] @
           rejected_bytes h"]) simp
  next
    case 2
    note m = marshal_Rejected_6 [OF laws this v(2) len]
    then show ?thesis using laws
      by (intro exI [of _ "ip6_header_bytes (of_nat (length buf - 40)) 0 TSMP (na_As16 na (rh_IPSrc h))
           (na_As16 na (rh_IPDst h)) @ rejected_bytes h"]) (simp add: length_As16)
  qed
qed (simp_all add: marshal_Rejected_def)

definition pong_bytes :: "'h pong \<Rightarrow> bytes" where
  "pong_bytes h = 111 # pong_Data h @ [hi8 (pong_PeerAPIPort h), lo8 (pong_PeerAPIPort h)]"

text \<open>A pong relies on its IP header only through the contract of \<^verbatim>\<open>Header\<close>.\<close>

context header_codec
begin

lemma marshal_Pong_eq:
  assumes data: "length (pong_Data h) = 8" and len: "len_Pong hlen h \<le> length buf"
    and hb: "marshal (pong_IPHeader h) buf = Some (None, hb @ drop (hlen (pong_IPHeader h)) buf)"
    and lhd: "length hb = hlen (pong_IPHeader h)"
  shows "marshal_Pong hlen marshal h buf = Some (None, hb @ pong_bytes h @ drop (len_Pong hlen h) buf)"
proof -
  let ?n = "hlen (pong_IPHeader h)"
  define r where "r = drop ?n buf"
  have lr: "11 \<le> length r" and dr: "drop (len_Pong hlen h) buf = drop 11 r"
    using len by (simp_all add: r_def len_Pong_def add.commute)
  from lr have lb: "length (hb @ r) = ?n + 11 + (length r - 11)" by (simp add: lhd)
  have s: "set_idx (hb @ r) (?n + 0) TSMPTypePong = Some (hb @ TSMPTypePong # drop 1 r)"
    using lr by (cases r) (simp_all add: set_idx_def list_update_append lhd)
  have c: "copy_at (hb @ TSMPTypePong # drop 1 r) (?n + 1) (length (hb @ TSMPTypePong # drop 1 r)) (pong_Data h) =
      Some (hb @ TSMPTypePong # pong_Data h @ drop 9 r)"
    using lr data by (simp add: copy_at_def overwrite_eq lhd)
  have p: "put_u16 (hb @ TSMPTypePong # pong_Data h @ drop 9 r) (?n + 9) (pong_PeerAPIPort h) =
      Some (hb @ pong_bytes h @ drop 11 r)"
  proof -
    have "2 \<le> length (drop 9 r)" using lr by simp
    then obtain x y z where "drop 9 r = x # y # z"
      by (cases "drop 9 r" rule: remdups_adj.cases) (simp_all del: length_drop)
    moreover have "drop 11 r = drop 2 (drop 9 r)" by simp
    ultimately show ?thesis
      using lhd data by (simp add: put_u16_def list_update_append pong_bytes_def TSMPTypePong_def del: drop_drop)
  qed
  show ?thesis
    using len lr hb s c p lhd
    by (simp add: marshal_Pong_def r_def [symmetric] dr slice_from_def)
qed

lemma Pong_short: "length buf < len_Pong hlen h \<Longrightarrow> marshal_Pong hlen marshal h buf = Some (Some errSmallBuffer, buf)"
  by (simp add: marshal_Pong_def)

lemma Pong_large:
  "len_Pong hlen h \<le> length buf \<Longrightarrow> maxPacketLength < length buf \<Longrightarrow>
   marshal_Pong hlen marshal h buf = Some (Some errLargePacket, buf)"
  using large [of "pong_IPHeader h" buf] by (simp add: marshal_Pong_def len_Pong_def)

lemma Pong_written:
  assumes "valid (pong_IPHeader h) \<and> length (pong_Data h) = 8" "len_Pong hlen h \<le> length buf"
    and "length buf \<le> maxPacketLength"
  shows "\<exists>hb. length hb = len_Pong hlen h \<and> marshal_Pong hlen marshal h buf = Some (None, hb @ drop (len_Pong hlen h) buf)"
proof -
  have "hlen (pong_IPHeader h) \<le> length buf" using assms(2) by (simp add: len_Pong_def)
  then obtain hb where "length hb = hlen (pong_IPHeader h)"
    "marshal (pong_IPHeader h) buf = Some (None, hb @ drop (hlen (pong_IPHeader h)) buf)"
    using written assms by blast
  with marshal_Pong_eq assms show ?thesis
    by (intro exI [of _ "hb @ pong_bytes h"]) (simp add: pong_bytes_def len_Pong_def)
qed

end

interpretation pong4: header_codec "len_Pong len_IP4" "marshal_Pong len_IP4 (marshal_IP4 na)"
    "\<lambda>h. valid_ip4 na (pong_IPHeader h) \<and> length (pong_Data h) = 8" for na :: "'ip netaddr"
  by unfold_locales (rule ip4.Pong_short ip4.Pong_large ip4.Pong_written; assumption)+

interpretation pong6: header_codec "len_Pong len_IP6" "marshal_Pong len_IP6 (marshal_IP6 na)"
    "\<lambda>h. netaddr_laws na \<and> length (pong_Data h) = 8" for na :: "'ip netaddr"
  by unfold_locales (rule ip6.Pong_short ip6.Pong_large ip6.Pong_written; assumption)+

section \<open>Round trips\<close>

text \<open>What follows the IP header of a TSMP packet is its payload.\<close>

lemma Decode_TSMP_ip4:
  assumes "pkt = ip4_header_bytes (of_nat (length pkt)) ipid TSMP [s0, s1, s2, s3] [d0, d1, d2, d3] @ rest"
    and "length pkt \<le> 65535"
  obtains q' where "Decode na q pkt = Some q'" "IPVersion q' = 4" "IPProto q' = TSMP" "q_b q' = pkt"
    "ipp_IP (q_Src q') = na_IPv4 na s0 s1 s2 s3" "ipp_IP (q_Dst q') = na_IPv4 na d0 d1 d2 d3"
    "Payload q' = Some rest"
proof -
  have "length pkt = 20 + length rest" by (subst assms(1)) simp
  moreover have "drop 20 pkt = rest" by (subst assms(1)) simp
  ultimately show thesis
    by (intro that [OF Decode_ip4_packet [OF assms, of na q, unfolded decode4_first_def, simplified]])
      (simp_all add: Payload_def slice_def)
qed

lemma Decode_TSMP_ip6:
  assumes "pkt = ip6_header_bytes (of_nat (length pkt - 40)) ipid TSMP (na_As16 na src) (na_As16 na dst) @ rest"
    and "netaddr_laws na" "plain_ip na src" "plain_ip na dst" and "length pkt \<le> 65535"
  obtains q' where "Decode na q pkt = Some q'" "IPVersion q' = 6" "IPProto q' = TSMP" "q_b q' = pkt"
    "ipp_IP (q_Src q') = src" "ipp_IP (q_Dst q') = dst" "Payload q' = Some rest"
proof -
  have l16: "length (na_As16 na src) = 16" "length (na_As16 na dst) = 16"
    using assms(2) by (simp_all add: length_As16)
  have "length pkt = 40 + length rest" by (subst assms(1)) (simp add: l16)
  moreover have "drop 40 pkt = rest" by (subst assms(1)) (simp add: l16)
  ultimately show thesis
    using assms(2-4)
    by (intro that [OF Decode_ip6_packet [OF assms(1) l16 assms(5), of na q, unfolded decode6_sub_def, simplified]])
      (simp_all add: Payload_def slice_def FromStdIP_As16)
qed

lemma rejected_parse:
  assumes "Payload q = Some (rejected_bytes h)"
    and "rh_IPSrc h = ipp_IP (q_Src q)" "rh_IPDst h = ipp_IP (q_Dst q)"
    and "ipp_IP (rh_Src h) = rh_IPDst h" "ipp_IP (rh_Dst h) = rh_IPSrc h"
  shows "AsTailscaleRejectedHeader q = Some (Some h)"
proof -
  obtain sp dp where "rh_Src h = IPPort (ipp_IP (q_Dst q)) sp" "rh_Dst h = IPPort (ipp_IP (q_Src q)) dp"
    using assms(2-5) by (metis ipport.collapse)
  then show ?thesis
    using assms(1-3)
    by (cases h) (simp add: AsTailscaleRejectedHeader_def rejected_bytes_def idx_def u16_at_def Uint16_def slice_def
        TSMPTypeRejectedConn_def rejectFlagBitMaybeBroken_def)
qed

lemma Rejected_wire:
  assumes v: "valid_rejected na h"
    and plain: "plain_ip na (rh_IPSrc h)" "plain_ip na (rh_IPDst h)"
    and flow: "ipp_IP (rh_Src h) = rh_IPDst h" "ipp_IP (rh_Dst h) = rh_IPSrc h"
  shows "\<exists>pkt q'. Generate (len_Rejected na h) (marshal_Rejected na h) [] = Some pkt \<and>
    Decode na q pkt = Some q' \<and> IPProto q' = TSMP \<and> AsTailscaleRejectedHeader q' = Some (Some h)"
proof -
  have laws: "netaddr_laws na" using v by (simp add: valid_rejected_def)
  let ?buf = "replicate (len_Rejected na h) 0 @ [] :: bytes"
  have len: "len_Rejected na h \<le> length ?buf" "length ?buf \<le> 65535"
    by (simp_all add: len_Rejected_def header_length_defs)
  consider (v4) "na_Is4 na (rh_IPSrc h)" "na_Is4 na (rh_IPDst h)" "na_Is4 na (ipp_IP (rh_Src h))"
    | (v6) "na_Is6 na (rh_IPSrc h)" "na_Is6 na (ipp_IP (rh_Src h))"
    using v by (auto simp: valid_rejected_def)
  then show ?thesis
  proof cases
    case v4
    obtain s0 s1 s2 s3 d0 d1 d2 d3 where ip: "rh_IPSrc h = na_IPv4 na s0 s1 s2 s3" "rh_IPDst h = na_IPv4 na d0 d1 d2 d3"
      and l: "len_Rejected na h = 20 + length (rejected_bytes h)"
      and m: "marshal_Rejected na h ?buf =
         Some (None, ip4_header_bytes (of_nat (length ?buf)) 0 TSMP [s0, s1, s2, s3] [d0, d1, d2, d3] @
           rejected_bytes h @ drop (len_Rejected na h) ?buf)"
      by (rule marshal_Rejected_4 [OF laws v4 len])
    define pkt where "pkt = ip4_header_bytes (of_nat (length ?buf)) 0 TSMP [s0, s1, s2, s3] [d0, d1, d2, d3] @ rejected_bytes h"
    have lp: "length pkt = length ?buf" by (simp add: pkt_def l)
    have e: "pkt = ip4_header_bytes (of_nat (length pkt)) 0 TSMP [s0, s1, s2, s3] [d0, d1, d2, d3] @ rejected_bytes h"
      "length pkt \<le> 65535" using len(2) unfolding lp by (simp_all add: pkt_def)
    obtain q' where "Decode na q pkt = Some q'" "IPVersion q' = 4" "IPProto q' = TSMP" "q_b q' = pkt"
      "ipp_IP (q_Src q') = na_IPv4 na s0 s1 s2 s3" "ipp_IP (q_Dst q') = na_IPv4 na d0 d1 d2 d3"
      "Payload q' = Some (rejected_bytes h)"
      by (rule Decode_TSMP_ip4 [OF e])
    moreover have "Generate (len_Rejected na h) (marshal_Rejected na h) [] = Some pkt"
      by (simp add: rejected.Generate_unfold m [simplified] pkt_def)
    ultimately show ?thesis using rejected_parse [of q' h] flow ip by auto
  next
    case v6
    note m = marshal_Rejected_6 [OF laws v6 len]
    define pkt where "pkt = ip6_header_bytes (of_nat (length ?buf - 40)) 0 TSMP
      (na_As16 na (rh_IPSrc h)) (na_As16 na (rh_IPDst h)) @ rejected_bytes h"
    have lp: "length pkt = length ?buf" using laws by (simp add: pkt_def m(1) length_As16)
    have e: "pkt = ip6_header_bytes (of_nat (length pkt - 40)) 0 TSMP (na_As16 na (rh_IPSrc h))
        (na_As16 na (rh_IPDst h)) @ rejected_bytes h" and e2: "length pkt \<le> 65535"
      using len(2) unfolding lp by (simp_all add: pkt_def)
    obtain q' where "Decode na q pkt = Some q'" "IPVersion q' = 6" "IPProto q' = TSMP" "q_b q' = pkt"
      "ipp_IP (q_Src q') = rh_IPSrc h" "ipp_IP (q_Dst q') = rh_IPDst h" "Payload q' = Some (rejected_bytes h)"
      by (rule Decode_TSMP_ip6 [OF e laws plain e2])
    moreover have "Generate (len_Rejected na h) (marshal_Rejected na h) [] = Some pkt"
      by (simp add: rejected.Generate_unfold m(2) [simplified] pkt_def)
    ultimately show ?thesis using rejected_parse [of q' h] flow by auto
  qed
qed

text \<open>
  C19. A rejection notice survives the wire: for a header whose addresses are of one family, whose
  IPv6 addresses are plain, and whose rejected flow runs from the notice's destination to its
  source, \<^verbatim>\<open>Generate\<close> gives a packet that decodes as TSMP and parses back to the same header, the
  \<^verbatim>\<open>MaybeBroken\<close> flag included.
\<close>

theorem Rejected_round_trip:
  assumes v: "valid_rejected na h"
    and plain: "plain_ip na (rh_IPSrc h)" "plain_ip na (rh_IPDst h)"
    and flow: "ipp_IP (rh_Src h) = rh_IPDst h" "ipp_IP (rh_Dst h) = rh_IPSrc h"
  shows "\<exists>pkt q'. Generate (len_Rejected na h) (marshal_Rejected na h) [] = Some pkt \<and>
    Decode na q pkt = Some q' \<and> IPProto q' = TSMP \<and> AsTailscaleRejectedHeader q' = Some (Some h)"
  using assms by (rule Rejected_wire)

theorem Rejected_round_trip_witness:
  "\<exists>pkt q'. Generate 28 (marshal_Rejected addr_netaddr
      \<lparr>rh_IPSrc = V4 100 64 0 1, rh_IPDst = V4 100 64 0 2, rh_Src = IPPort (V4 100 64 0 2) 4000,
       rh_Dst = IPPort (V4 100 64 0 1) 22, rh_Proto = TCP, rh_Reason = RejectedDueToACLs, rh_MaybeBroken = True\<rparr>) [] =
      Some pkt \<and>
    Decode addr_netaddr (zero_parsed ZeroIP) pkt = Some q' \<and>
    AsTailscaleRejectedHeader q' = Some (Some
      \<lparr>rh_IPSrc = V4 100 64 0 1, rh_IPDst = V4 100 64 0 2, rh_Src = IPPort (V4 100 64 0 2) 4000,
       rh_Dst = IPPort (V4 100 64 0 1) 22, rh_Proto = TCP, rh_Reason = RejectedDueToACLs, rh_MaybeBroken = True\<rparr>)"
proof -
  let ?h = "\<lparr>rh_IPSrc = V4 100 64 0 1, rh_IPDst = V4 100 64 0 2, rh_Src = IPPort (V4 100 64 0 2) 4000,
       rh_Dst = IPPort (V4 100 64 0 1) 22, rh_Proto = TCP, rh_Reason = RejectedDueToACLs, rh_MaybeBroken = True\<rparr>"
  have "valid_rejected addr_netaddr ?h" "len_Rejected addr_netaddr ?h = 28"
    by (simp_all add: valid_rejected_def len_Rejected_def hasFlags_def ip4HeaderLength_def)
  with Rejected_round_trip [of addr_netaddr ?h "zero_parsed ZeroIP"] show ?thesis
    by (auto simp: plain_ip_def)
qed

text \<open>The pong that a node generates in reply to a ping.\<close>

lemma pong_parse:
  assumes "Payload q = Some (pong_bytes h)" "IPProto q = TSMP" "length (pong_Data h) = 8"
  shows "AsTSMPPong q = Some (Some \<lparr>pong_IPHeader = (), pong_Data = pong_Data h, pong_PeerAPIPort = pong_PeerAPIPort h\<rparr>)"
  using assms
  by (simp add: AsTSMPPong_def pong_bytes_def idx_def slice_from_def Uint16_def TSMPTypePong_def nth_append)

lemma Pong4_wire:
  assumes v: "valid_ip4 na (pong_IPHeader h)" and t: "h4_IPProto (pong_IPHeader h) = TSMP"
    and d: "length (pong_Data h) = 8"
  shows "\<exists>pkt q'. Generate (len_Pong len_IP4 h) (marshal_Pong len_IP4 (marshal_IP4 na) h) [] = Some pkt \<and>
    Decode na q pkt = Some q' \<and> ipp_IP (q_Src q') = h4_Src (pong_IPHeader h) \<and>
    ipp_IP (q_Dst q') = h4_Dst (pong_IPHeader h) \<and>
    AsTSMPPong q' = Some (Some \<lparr>pong_IPHeader = (), pong_Data = pong_Data h, pong_PeerAPIPort = pong_PeerAPIPort h\<rparr>) \<and>
    AsTSMPPing q' = Some None"
proof -
  let ?ih = "pong_IPHeader h"
  let ?buf = "replicate 31 0 @ [] :: bytes"
  have l: "len_Pong len_IP4 h = 31" "len_IP4 ?ih = 20"
    by (simp_all add: len_Pong_def len_IP4_def ip4HeaderLength_def)
  obtain s0 s1 s2 s3 d0 d1 d2 d3 where a: "h4_Src ?ih = na_IPv4 na s0 s1 s2 s3" "h4_Dst ?ih = na_IPv4 na d0 d1 d2 d3"
    "na_Is4 na (h4_Src ?ih)" "na_Is4 na (h4_Dst ?ih)"
    "na_As4 na (h4_Src ?ih) = Some [s0, s1, s2, s3]" "na_As4 na (h4_Dst ?ih) = Some [d0, d1, d2, d3]"
    by (rule valid_ip4E [OF v])
  let ?hb = "ip4_header_bytes (of_nat (length ?buf)) (h4_IPID ?ih) TSMP [s0, s1, s2, s3] [d0, d1, d2, d3]"
  have "marshal_IP4 na ?ih ?buf = Some (None, ?hb @ drop (len_IP4 ?ih) ?buf)"
    using marshal_IP4_eq [OF _ _ a(3-6), of ?buf] t l(2) by simp
  with ip4.marshal_Pong_eq [of h ?buf na ?hb, OF d] l
  have m: "marshal_Pong len_IP4 (marshal_IP4 na) h ?buf = Some (None, ?hb @ pong_bytes h)" by simp
  have lp: "length (?hb @ pong_bytes h) = length ?buf" using d by (simp add: pong_bytes_def)
  have e: "?hb @ pong_bytes h = ip4_header_bytes (of_nat (length (?hb @ pong_bytes h))) (h4_IPID ?ih) TSMP
      [s0, s1, s2, s3] [d0, d1, d2, d3] @ pong_bytes h" "length (?hb @ pong_bytes h) \<le> 65535"
    unfolding lp by simp_all
  obtain q' where q: "Decode na q (?hb @ pong_bytes h) = Some q'" "IPVersion q' = 4" "IPProto q' = TSMP"
      "q_b q' = ?hb @ pong_bytes h" "ipp_IP (q_Src q') = na_IPv4 na s0 s1 s2 s3"
      "ipp_IP (q_Dst q') = na_IPv4 na d0 d1 d2 d3" "Payload q' = Some (pong_bytes h)"
    by (rule Decode_TSMP_ip4 [OF e])
  have "AsTSMPPing q' = Some None"
    using q(3,7) d by (simp add: AsTSMPPing_def pong_bytes_def idx_def TSMPTypePing_def)
  moreover have "Generate (len_Pong len_IP4 h) (marshal_Pong len_IP4 (marshal_IP4 na) h) [] = Some (?hb @ pong_bytes h)"
    using m by (subst pong4.Generate_unfold) (simp add: l)
  ultimately show ?thesis using q a(1,2) pong_parse [OF q(7,3) d] by auto
qed

text \<open>
  A pong over IPv4 survives the wire: \<^verbatim>\<open>Generate\<close> gives a packet that decodes as TSMP, with the
  addresses of the IP header, and that \<^verbatim>\<open>AsTSMPPong\<close> parses back to the same eight data bytes and
  the same peer API port; it is not taken for a ping.
\<close>

theorem Pong4_round_trip:
  assumes v: "valid_ip4 na (pong_IPHeader h)" and t: "h4_IPProto (pong_IPHeader h) = TSMP"
    and d: "length (pong_Data h) = 8"
  shows "\<exists>pkt q'. Generate (len_Pong len_IP4 h) (marshal_Pong len_IP4 (marshal_IP4 na) h) [] = Some pkt \<and>
    Decode na q pkt = Some q' \<and> ipp_IP (q_Src q') = h4_Src (pong_IPHeader h) \<and>
    ipp_IP (q_Dst q') = h4_Dst (pong_IPHeader h) \<and>
    AsTSMPPong q' = Some (Some \<lparr>pong_IPHeader = (), pong_Data = pong_Data h, pong_PeerAPIPort = pong_PeerAPIPort h\<rparr>) \<and>
    AsTSMPPing q' = Some None"
  using assms by (rule Pong4_wire)

theorem Pong4_round_trip_witness:
  "\<exists>pkt q'. Generate 31 (marshal_Pong len_IP4 (marshal_IP4 addr_netaddr)
      \<lparr>pong_IPHeader = \<lparr>h4_IPProto = TSMP, h4_IPID = 9, h4_Src = V4 100 64 0 1, h4_Dst = V4 100 64 0 2\<rparr>,
       pong_Data = [1, 2, 3, 4, 5, 6, 7, 8], pong_PeerAPIPort = 8080\<rparr>) [] = Some pkt \<and>
    Decode addr_netaddr (zero_parsed ZeroIP) pkt = Some q' \<and>
    AsTSMPPong q' = Some (Some \<lparr>pong_IPHeader = (), pong_Data = [1, 2, 3, 4, 5, 6, 7, 8], pong_PeerAPIPort = 8080\<rparr>)"
  using Pong4_round_trip [of addr_netaddr "\<lparr>pong_IPHeader = \<lparr>h4_IPProto = TSMP, h4_IPID = 9, h4_Src = V4 100 64 0 1,
      h4_Dst = V4 100 64 0 2\<rparr>, pong_Data = [1, 2, 3, 4, 5, 6, 7, 8], pong_PeerAPIPort = 8080\<rparr>" "zero_parsed ZeroIP"]
  by (auto simp: valid_ip4_def len_Pong_def len_IP4_def ip4HeaderLength_def)

text \<open>
  No TSMP parser panics on a decoded packet: the parsers of pings and pongs on any packet, that
  of rejection notices on any TSMP packet.
\<close>

theorem TSMP_parsers_total:
  assumes "Decode na q b = Some q'"
  shows "AsTSMPPing q' \<noteq> None \<and> AsTSMPPong q' \<noteq> None \<and>
    (IPProto q' = TSMP \<longrightarrow> AsTailscaleRejectedHeader q' \<noteq> None)"
proof (cases "IPProto q' = TSMP")
  case True
  obtain p where "Payload q' = Some p"
    using Payload_TSMP [of q'] Decode_wf [of na q b] assms True by auto
  then show ?thesis
    by (auto simp: AsTSMPPing_def AsTSMPPong_def AsTailscaleRejectedHeader_def idx_def slice_from_def u16_at_def
        slice_def Uint16_def Let_def)
next
  case False
  then show ?thesis by (simp add: AsTSMPPing_def AsTSMPPong_def)
qed

theorem TSMP_parsers_total_witness:
  "\<exists>q'. Decode addr_netaddr (zero_parsed ZeroIP)
      [0x45, 0, 0, 22, 0, 0, 0, 0, 64, 99, 0, 0, 1, 2, 3, 4, 5, 6, 7, 8, 33, 6] = Some q' \<and>
    AsTSMPPing q' \<noteq> None \<and> AsTSMPPong q' \<noteq> None"
  using TSMP_parsers_total Decode_wf by blast

end
