(* ===== verification/Rate.thy ===== *)
theory Rate
  imports Complex_Main Prelude
begin

text \<open>
  The token bucket of \<^verbatim>\<open>tstime/rate/rate.go\<close>. Times of type \<^verbatim>\<open>mono.Time\<close> and durations are
  nanoseconds, as integers. The fields of type \<^verbatim>\<open>float64\<close> are rationals: the model computes the
  token count exactly, without the rounding of the floating-point operations. \<open>None\<close> is a panic.
\<close>

record limiter =
  lim_limit :: rat
  lim_burst :: rat
  lim_tokens :: rat
  lim_last :: int

definition Seconds :: "int \<Rightarrow> rat" where
  "Seconds d = of_int d / 1000000000"

definition Every :: "int \<Rightarrow> rat option" where
  "Every interval = (if interval \<le> 0 then None else Some (1 / Seconds interval))"

definition NewLimiter :: "rat \<Rightarrow> int \<Rightarrow> limiter option" where
  "NewLimiter r b =
     (if b < 1 then None
      else Some \<lparr>lim_limit = r, lim_burst = of_int b, lim_tokens = 0, lim_last = 0\<rparr>)"

text \<open>Methods of \<^verbatim>\<open>mono.Time\<close>.\<close>

definition Before :: "int \<Rightarrow> int \<Rightarrow> bool" where "Before t n \<longleftrightarrow> t < n"
definition Sub :: "int \<Rightarrow> int \<Rightarrow> int" where "Sub t n = t - n"

definition allow :: "limiter \<Rightarrow> int \<Rightarrow> bool \<times> limiter" where
  "allow lm now =
     (let lm = (if Before now (lim_last lm) then lm\<lparr>lim_last := now\<rparr> else lm);
          elapsed = Sub now (lim_last lm);
          tokens = lim_tokens lm + lim_limit lm * Seconds elapsed;
          tokens = (if tokens > lim_burst lm then lim_burst lm else tokens);
          tokens = tokens - 1;
          ok = (tokens \<ge> 0)
      in (ok, if ok then lm\<lparr>lim_last := now, lim_tokens := tokens\<rparr> else lm))"

section \<open>The bucket never overdraws\<close>

definition limiter_inv :: "limiter \<Rightarrow> bool" where
  "limiter_inv lm \<longleftrightarrow> 0 < lim_limit lm \<and> 1 \<le> lim_burst lm \<and> 0 \<le> lim_tokens lm \<and> lim_tokens lm \<le> lim_burst lm"

lemma limiter_inv_new: "NewLimiter r b = Some lm \<Longrightarrow> 0 < r \<Longrightarrow> limiter_inv lm"
  by (auto simp: NewLimiter_def limiter_inv_def split: if_splits)

lemma Seconds_nonneg: "0 \<le> d \<Longrightarrow> 0 \<le> Seconds d"
  by (simp add: Seconds_def)

lemma allow_inv:
  assumes "limiter_inv lm"
  shows "limiter_inv (snd (allow lm now))"
  using assms by (auto simp: limiter_inv_def allow_def Let_def Before_def Sub_def)

lemma allow_fields [simp]:
  "lim_limit (snd (allow lm now)) = lim_limit lm" "lim_burst (snd (allow lm now)) = lim_burst lm"
  by (simp_all add: allow_def Let_def)

text \<open>The events that a sequence of calls allows.\<close>

fun allowed :: "limiter \<Rightarrow> int list \<Rightarrow> nat" where
  "allowed lm [] = 0"
| "allowed lm (t # ts) = (if fst (allow lm t) then 1 else 0) + allowed (snd (allow lm t)) ts"

text \<open>The tokens that a call at time \<open>t\<close> finds in the bucket.\<close>

definition level :: "limiter \<Rightarrow> int \<Rightarrow> rat" where
  "level lm t = min (lim_burst lm) (lim_tokens lm + lim_limit lm * Seconds (t - lim_last lm))"

lemma allow_eq:
  assumes "lim_last lm \<le> now"
  shows "allow lm now =
    (if 1 \<le> level lm now then (True, lm\<lparr>lim_last := now, lim_tokens := level lm now - 1\<rparr>) else (False, lm))"
  using assms by (auto simp: allow_def Let_def Before_def Sub_def level_def min_def)

lemma level_le: "limiter_inv lm \<Longrightarrow> level lm t \<le> lim_burst lm"
  by (simp add: level_def)

lemma level_mono:
  assumes "limiter_inv lm" and "t \<le> t'"
  shows "level lm t' \<le> level lm t + lim_limit lm * Seconds (t' - t)"
proof -
  have "lim_limit lm * Seconds (t' - lim_last lm) =
      lim_limit lm * Seconds (t - lim_last lm) + lim_limit lm * Seconds (t' - t)"
    by (simp add: Seconds_def field_simps)
  moreover have "0 \<le> lim_limit lm * Seconds (t' - t)"
    using assms by (simp add: limiter_inv_def Seconds_nonneg)
  ultimately show ?thesis by (simp add: level_def min_def)
qed

lemma level_after:
  assumes "limiter_inv lm" and "lim_last lm \<le> t"
  shows "level (snd (allow lm t)) t = level lm t - (if fst (allow lm t) then 1 else 0)"
  using level_le [OF assms(1), of t] assms(1)
  by (auto simp: allow_eq [OF assms(2)]) (simp add: level_def Seconds_def)

lemma allow_last: "lim_last lm \<le> t \<Longrightarrow> lim_last (snd (allow lm t)) \<le> t"
  by (simp add: allow_eq)

lemma level_nonneg: "limiter_inv lm \<Longrightarrow> lim_last lm \<le> t \<Longrightarrow> 0 \<le> level lm t"
  by (simp add: level_def limiter_inv_def Seconds_nonneg)

lemma allowed_budget:
  assumes "limiter_inv lm" and "lim_last lm \<le> t0" and "sorted (t0 # ts)" and "\<forall>t \<in> set (t0 # ts). t \<le> T"
  shows "of_nat (allowed lm ts) \<le> level lm t0 + lim_limit lm * Seconds (T - t0)"
  using assms
proof (induction ts arbitrary: lm t0)
  case Nil
  then show ?case
    by (simp add: level_nonneg limiter_inv_def Seconds_nonneg)
next
  case (Cons t ts)
  let ?l = "snd (allow lm t)"
  have lt: "lim_last lm \<le> t" using Cons.prems(2,3) by simp
  have "of_nat (allowed ?l ts) \<le> level ?l t + lim_limit ?l * Seconds (T - t)"
    using Cons.prems allow_last [OF lt] by (intro Cons.IH) (auto simp: allow_inv)
  also have "\<dots> = level lm t - (if fst (allow lm t) then 1 else 0) + lim_limit lm * Seconds (T - t)"
    using Cons.prems(1) lt by (simp add: level_after)
  finally have "of_nat (allowed lm (t # ts)) \<le> level lm t + lim_limit lm * Seconds (T - t)"
    by (simp split: if_splits)
  also have "\<dots> \<le> level lm t0 + (lim_limit lm * Seconds (t - t0) + lim_limit lm * Seconds (T - t))"
    using level_mono [of lm t0 t] Cons.prems(1,3) by simp
  also have "lim_limit lm * Seconds (t - t0) + lim_limit lm * Seconds (T - t) = lim_limit lm * Seconds (T - t0)"
    by (simp add: Seconds_def field_simps)
  finally show ?case .
qed

text \<open>The limiter after a sequence of calls.\<close>

definition after :: "limiter \<Rightarrow> int list \<Rightarrow> limiter" where
  "after lm ts = foldl (\<lambda>l t. snd (allow l t)) lm ts"

lemma after_inv:
  assumes "limiter_inv lm" and "sorted (lim_last lm # ts)" and "\<forall>t \<in> set ts. t \<le> T" and "lim_last lm \<le> T"
  shows "limiter_inv (after lm ts) \<and> lim_limit (after lm ts) = lim_limit lm \<and>
    lim_burst (after lm ts) = lim_burst lm \<and> lim_last (after lm ts) \<le> T"
  using assms
proof (induction ts arbitrary: lm)
  case (Cons t ts)
  have l: "lim_last (snd (allow lm t)) \<le> t" using Cons.prems(2) by (simp add: allow_last)
  have "limiter_inv (after (snd (allow lm t)) ts) \<and> lim_limit (after (snd (allow lm t)) ts) = lim_limit (snd (allow lm t)) \<and>
    lim_burst (after (snd (allow lm t)) ts) = lim_burst (snd (allow lm t)) \<and> lim_last (after (snd (allow lm t)) ts) \<le> T"
    using Cons.prems l by (intro Cons.IH) (auto simp: allow_inv)
  then show ?case by (simp add: after_def)
qed (simp add: after_def)



end
