(* ===== verification/Pktfilter.thy ===== *)
theory Pktfilter
  imports Packet Flowtrack Rate
begin

text \<open>
  The stateful packet filter of \<^verbatim>\<open>wgengine/filter\<close>: \<^verbatim>\<open>match.go\<close> and \<^verbatim>\<open>filter.go\<close>.

  A \<^verbatim>\<open>Filter\<close> holds a pointer to its connection-tracking state, and \<^verbatim>\<open>New\<close> may make two filters
  share it. The pointer is an index into the store of the record \<open>world\<close>, which also holds the
  package's two log rate limiters and the log itself. The operations of a filter take the world
  and return it with their verdict. The time that \<^verbatim>\<open>mono.Now\<close> would return is the argument \<open>now\<close>;
  every operation asks for it at most once. A log line is a value of the type \<open>log_line\<close>, without
  its text form. The values of the tracked flows are all \<^verbatim>\<open>nil\<close>, here the unit value.
\<close>

section \<open>Rules\<close>

record port_range =
  pr_First :: u16
  pr_Last :: u16

definition contains :: "port_range \<Rightarrow> u16 \<Rightarrow> bool" where
  "contains pr port \<longleftrightarrow> pr_First pr \<le> port \<and> port \<le> pr_Last pr"

record 'ip net_port_range =
  npr_Net :: "'ip ipprefix"
  npr_Ports :: port_range

record 'ip match_rule =
  m_IPProto :: "u8 list"
  m_Dsts :: "'ip net_port_range list"
  m_Srcs :: "'ip ipprefix list"

fun protoInList :: "u8 \<Rightarrow> u8 list \<Rightarrow> bool" where
  "protoInList proto [] = False"
| "protoInList proto (v # vs) = (if proto = v then True else protoInList proto vs)"

fun ipInList :: "'ip netaddr \<Rightarrow> 'ip \<Rightarrow> 'ip ipprefix list \<Rightarrow> bool" where
  "ipInList na ip [] = False"
| "ipInList na ip (n # ns) = (if na_Contains na n ip then True else ipInList na ip ns)"

fun match_dsts :: "'ip netaddr \<Rightarrow> 'ip net_port_range list \<Rightarrow> 'ip parsed \<Rightarrow> bool" where
  "match_dsts na [] q = False"
| "match_dsts na (d # ds) q =
     (if \<not> na_Contains na (npr_Net d) (ipp_IP (q_Dst q)) then match_dsts na ds q
      else if \<not> contains (npr_Ports d) (ipp_Port (q_Dst q)) then match_dsts na ds q
      else True)"

fun match :: "'ip netaddr \<Rightarrow> 'ip match_rule list \<Rightarrow> 'ip parsed \<Rightarrow> bool" where
  "match na [] q = False"
| "match na (m # ms) q =
     (if \<not> protoInList (IPProto q) (m_IPProto m) then match na ms q
      else if \<not> ipInList na (ipp_IP (q_Src q)) (m_Srcs m) then match na ms q
      else if match_dsts na (m_Dsts m) q then True
      else match na ms q)"

fun match_dst_ips :: "'ip netaddr \<Rightarrow> 'ip net_port_range list \<Rightarrow> 'ip parsed \<Rightarrow> bool" where
  "match_dst_ips na [] q = False"
| "match_dst_ips na (d # ds) q =
     (if na_Contains na (npr_Net d) (ipp_IP (q_Dst q)) then True else match_dst_ips na ds q)"

fun matchIPsOnly :: "'ip netaddr \<Rightarrow> 'ip match_rule list \<Rightarrow> 'ip parsed \<Rightarrow> bool" where
  "matchIPsOnly na [] q = False"
| "matchIPsOnly na (m # ms) q =
     (if \<not> ipInList na (ipp_IP (q_Src q)) (m_Srcs m) then matchIPsOnly na ms q
      else if match_dst_ips na (m_Dsts m) q then True
      else matchIPsOnly na ms q)"

text \<open>The loops of \<^verbatim>\<open>matchesFamily\<close>: \<^verbatim>\<open>ret\<close>, \<^verbatim>\<open>retm.Srcs\<close> and \<^verbatim>\<open>retm.Dsts\<close> are the accumulators.\<close>

fun keep_srcs :: "('ip \<Rightarrow> bool) \<Rightarrow> 'ip ipprefix list \<Rightarrow> 'ip ipprefix list \<Rightarrow> 'ip ipprefix list" where
  "keep_srcs keep acc [] = acc"
| "keep_srcs keep acc (s # ss) = keep_srcs keep (if keep (pfx_IP s) then acc @ [s] else acc) ss"

fun keep_dsts :: "('ip \<Rightarrow> bool) \<Rightarrow> 'ip net_port_range list \<Rightarrow> 'ip net_port_range list \<Rightarrow> 'ip net_port_range list" where
  "keep_dsts keep acc [] = acc"
| "keep_dsts keep acc (d # ds) = keep_dsts keep (if keep (pfx_IP (npr_Net d)) then acc @ [d] else acc) ds"

fun matchesFamily_loop :: "('ip \<Rightarrow> bool) \<Rightarrow> 'ip match_rule list \<Rightarrow> 'ip match_rule list \<Rightarrow> 'ip match_rule list" where
  "matchesFamily_loop keep ret [] = ret"
| "matchesFamily_loop keep ret (m # ms) =
     (let retm = \<lparr>m_IPProto = m_IPProto m, m_Dsts = keep_dsts keep [] (m_Dsts m), m_Srcs = keep_srcs keep [] (m_Srcs m)\<rparr>
      in matchesFamily_loop keep
           (if length (m_Srcs retm) > 0 \<and> length (m_Dsts retm) > 0 then ret @ [retm] else ret) ms)"

definition matchesFamily :: "'ip match_rule list \<Rightarrow> ('ip \<Rightarrow> bool) \<Rightarrow> 'ip match_rule list" where
  "matchesFamily ms keep = matchesFamily_loop keep [] ms"

section \<open>Filters and their state\<close>

record 'ip pkt_filter =
  f_local :: "'ip ipset"
  f_logIPs :: "'ip ipset"
  f_matches4 :: "'ip match_rule list"
  f_matches6 :: "'ip match_rule list"
  f_state :: nat
  f_shieldsUp :: bool

definition lruMax :: int where "lruMax = 512"

datatype response = Drop | DropSilently | Accept | noVerdict

definition IsDrop :: "response \<Rightarrow> bool" where
  "IsDrop r \<longleftrightarrow> r = Drop \<or> r = DropSilently"

type_synonym run_flags = "64 word"

definition LogDrops :: run_flags where "LogDrops = 1"
definition LogAccepts :: run_flags where "LogAccepts = 2"
definition HexdumpDrops :: run_flags where "HexdumpDrops = 4"
definition HexdumpAccepts :: run_flags where "HexdumpAccepts = 8"

datatype direction = dir_in | dir_out

record 'ip log_line =
  ll_verdict :: string
  ll_packet :: "'ip parsed"
  ll_why :: string
  ll_hexdump :: bool

record 'ip world =
  w_next :: nat
  w_lru :: "nat \<Rightarrow> ('ip, unit) cache"
  w_acceptBucket :: limiter
  w_dropBucket :: limiter
  w_log :: "'ip log_line list"

definition New :: "'ip netaddr \<Rightarrow> 'ip world \<Rightarrow> 'ip match_rule list \<Rightarrow> 'ip ipset \<Rightarrow> 'ip ipset \<Rightarrow> 'ip pkt_filter option \<Rightarrow> 'ip pkt_filter \<times> 'ip world" where
  "New na w ms localNets logIPs shareStateWith =
     (let (st, w) = (case shareStateWith of
            Some g \<Rightarrow> (f_state g, w)
          | None \<Rightarrow> (w_next w, w\<lparr>w_next := Suc (w_next w),
                                  w_lru := (w_lru w)(w_next w := new_cache lruMax)\<rparr>))
      in (\<lparr>f_local = localNets, f_logIPs = logIPs,
           f_matches4 = matchesFamily ms (na_Is4 na), f_matches6 = matchesFamily ms (na_Is6 na),
           f_state = st, f_shieldsUp = False\<rparr>, w))"

definition NewAllowNone :: "'ip netaddr \<Rightarrow> 'ip world \<Rightarrow> 'ip ipset \<Rightarrow> 'ip pkt_filter \<times> 'ip world" where
  "NewAllowNone na w logIPs = New na w [] (\<lambda>_. False) logIPs None"

definition NewShieldsUpFilter :: "'ip netaddr \<Rightarrow> 'ip world \<Rightarrow> 'ip ipset \<Rightarrow> 'ip ipset \<Rightarrow> 'ip pkt_filter option \<Rightarrow> 'ip pkt_filter \<times> 'ip world" where
  "NewShieldsUpFilter na w localNets logIPs shareStateWith =
     (let shareStateWith = (case shareStateWith of
            Some g \<Rightarrow> if \<not> f_shieldsUp g then None else Some g
          | None \<Rightarrow> None);
          (f, w) = New na w [] localNets logIPs shareStateWith
      in (f\<lparr>f_shieldsUp := True\<rparr>, w))"

section \<open>Logging\<close>

definition gcpDNSAddr :: "'ip netaddr \<Rightarrow> 'ip" where
  "gcpDNSAddr na = na_IPv4 na 169 254 169 254"

definition loggingAllowed :: "'ip pkt_filter \<Rightarrow> 'ip parsed \<Rightarrow> bool" where
  "loggingAllowed f p \<longleftrightarrow> f_logIPs f (ipp_IP (q_Src p)) \<and> f_logIPs f (ipp_IP (q_Dst p))"

definition omitDropLogging :: "'ip netaddr \<Rightarrow> 'ip parsed \<Rightarrow> direction \<Rightarrow> bool" where
  "omitDropLogging na p dir =
     (if dir \<noteq> dir_out then False
      else na_IsMulticast na (ipp_IP (q_Dst p)) \<or>
           (na_IsLinkLocalUnicast na (ipp_IP (q_Dst p)) \<and> ipp_IP (q_Dst p) \<noteq> gcpDNSAddr na) \<or>
           IPProto p = IGMP)"

definition logRateLimit ::
  "'ip netaddr \<Rightarrow> int \<Rightarrow> 'ip pkt_filter \<Rightarrow> run_flags \<Rightarrow> 'ip parsed \<Rightarrow> direction \<Rightarrow> response \<Rightarrow> string \<Rightarrow> 'ip world \<Rightarrow> 'ip world" where
  "logRateLimit na now f runflags q dir r why w =
     (if \<not> loggingAllowed f q then w
      else if r = Drop \<and> omitDropLogging na q dir then w
      else
        let (verdict, runflags, w) =
              (if r = Drop \<and> runflags AND LogDrops \<noteq> 0
               then let (ok, b) = allow (w_dropBucket w) now; w = w\<lparr>w_dropBucket := b\<rparr>
                    in if ok then (''Drop'', runflags AND HexdumpDrops, w) else ([], runflags, w)
               else if r = Accept \<and> runflags AND LogAccepts \<noteq> 0
               then let (ok, b) = allow (w_acceptBucket w) now; w = w\<lparr>w_acceptBucket := b\<rparr>
                    in if ok then (''Accept'', runflags AND HexdumpAccepts, w) else ([], runflags, w)
               else ([], runflags, w))
        in if verdict \<noteq> []
           then w\<lparr>w_log := w_log w @
                  [\<lparr>ll_verdict = verdict, ll_packet = q, ll_why = why, ll_hexdump = (runflags \<noteq> 0)\<rparr>]\<rparr>
           else w)"

section \<open>Verdicts\<close>

definition pre ::
  "'ip netaddr \<Rightarrow> int \<Rightarrow> 'ip pkt_filter \<Rightarrow> 'ip parsed \<Rightarrow> run_flags \<Rightarrow> direction \<Rightarrow> 'ip world \<Rightarrow> response \<times> 'ip world" where
  "pre na now f q rf dir w =
     (if length (Buffer q) = 0 then (Accept, w)
      else if length (Buffer q) < 20 then (Drop, logRateLimit na now f rf q dir Drop ''too short'' w)
      else if na_IsMulticast na (ipp_IP (q_Dst q)) then (Drop, logRateLimit na now f rf q dir Drop ''multicast'' w)
      else if na_IsLinkLocalUnicast na (ipp_IP (q_Dst q)) \<and> ipp_IP (q_Dst q) \<noteq> gcpDNSAddr na
      then (Drop, logRateLimit na now f rf q dir Drop ''link-local-unicast'' w)
      else if IPProto q = Unknown then (Drop, logRateLimit na now f rf q dir Drop ''unknown'' w)
      else if IPProto q = Fragment then (Accept, logRateLimit na now f rf q dir Accept ''fragment'' w)
      else (noVerdict, w))"

text \<open>\<^verbatim>\<open>f.state.lru.Get(t)\<close> and \<^verbatim>\<open>f.state.lru.Add(t, nil)\<close>.\<close>

definition lru_get :: "'ip pkt_filter \<Rightarrow> 'ip tuple \<Rightarrow> 'ip world \<Rightarrow> bool \<times> 'ip world" where
  "lru_get f t w =
     (let (v, c) = Get (w_lru w (f_state f)) t
      in (v \<noteq> None, w\<lparr>w_lru := (w_lru w)(f_state f := c)\<rparr>))"

definition lru_put :: "'ip pkt_filter \<Rightarrow> 'ip tuple \<Rightarrow> 'ip world \<Rightarrow> 'ip world" where
  "lru_put f t w = w\<lparr>w_lru := (w_lru w)(f_state f := Add (w_lru w (f_state f)) t ())\<rparr>"

definition runIn4 :: "'ip netaddr \<Rightarrow> 'ip pkt_filter \<Rightarrow> 'ip parsed \<Rightarrow> 'ip world \<Rightarrow> response \<times> string \<times> 'ip world" where
  "runIn4 na f q w =
     (if \<not> f_local f (ipp_IP (q_Dst q)) then (Drop, ''destination not allowed'', w)
      else if IPProto q = ICMPv4
      then if IsEchoResponse q \<or> IsError q then (Accept, ''icmp response ok'', w)
           else if matchIPsOnly na (f_matches4 f) q then (Accept, ''icmp ok'', w)
           else (Drop, ''no rules matched'', w)
      else if IPProto q = TCP
      then if \<not> IsTCPSyn q then (Accept, ''tcp non-syn'', w)
           else if match na (f_matches4 f) q then (Accept, ''tcp ok'', w)
           else (Drop, ''no rules matched'', w)
      else if IPProto q = UDP \<or> IPProto q = SCTP
      then let (ok, w) = lru_get f (Tuple (IPProto q) (q_Src q) (q_Dst q)) w
           in if ok then (Accept, ''cached'', w)
              else if match na (f_matches4 f) q then (Accept, ''ok'', w)
              else (Drop, ''no rules matched'', w)
      else if IPProto q = TSMP then (Accept, ''tsmp ok'', w)
      else (Drop, ''Unknown proto'', w))"

definition runIn6 :: "'ip netaddr \<Rightarrow> 'ip pkt_filter \<Rightarrow> 'ip parsed \<Rightarrow> 'ip world \<Rightarrow> response \<times> string \<times> 'ip world" where
  "runIn6 na f q w =
     (if \<not> f_local f (ipp_IP (q_Dst q)) then (Drop, ''destination not allowed'', w)
      else if IPProto q = ICMPv6
      then if IsEchoResponse q \<or> IsError q then (Accept, ''icmp response ok'', w)
           else if matchIPsOnly na (f_matches6 f) q then (Accept, ''icmp ok'', w)
           else (Drop, ''no rules matched'', w)
      else if IPProto q = TCP
      then if IPProto q = TCP \<and> \<not> IsTCPSyn q then (Accept, ''tcp non-syn'', w)
           else if match na (f_matches6 f) q then (Accept, ''tcp ok'', w)
           else (Drop, ''no rules matched'', w)
      else if IPProto q = UDP \<or> IPProto q = SCTP
      then let (ok, w) = lru_get f (Tuple (IPProto q) (q_Src q) (q_Dst q)) w
           in if ok then (Accept, ''cached'', w)
              else if match na (f_matches6 f) q then (Accept, ''ok'', w)
              else (Drop, ''no rules matched'', w)
      else if IPProto q = TSMP then (Accept, ''tsmp ok'', w)
      else (Drop, ''Unknown proto'', w))"

definition runOut :: "'ip pkt_filter \<Rightarrow> 'ip parsed \<Rightarrow> 'ip world \<Rightarrow> response \<times> string \<times> 'ip world" where
  "runOut f q w =
     (let w = (if IPProto q = UDP \<or> IPProto q = SCTP
               then lru_put f (Tuple (IPProto q) (q_Dst q) (q_Src q)) w else w)
      in (Accept, ''ok out'', w))"

definition RunIn :: "'ip netaddr \<Rightarrow> int \<Rightarrow> 'ip pkt_filter \<Rightarrow> 'ip parsed \<Rightarrow> run_flags \<Rightarrow> 'ip world \<Rightarrow> response \<times> 'ip world" where
  "RunIn na now f q rf w =
     (let (r, w) = pre na now f q rf dir_in w
      in if r = Accept \<or> r = Drop then (r, w)
         else let (r, why, w) = (if IPVersion q = 4 then runIn4 na f q w
                                 else if IPVersion q = 6 then runIn6 na f q w
                                 else (Drop, ''not-ip'', w))
              in (r, logRateLimit na now f rf q dir_in r why w))"

definition RunOut :: "'ip netaddr \<Rightarrow> int \<Rightarrow> 'ip pkt_filter \<Rightarrow> 'ip parsed \<Rightarrow> run_flags \<Rightarrow> 'ip world \<Rightarrow> response \<times> 'ip world" where
  "RunOut na now f q rf w =
     (let (r, w) = pre na now f q rf dir_out w
      in if r = Drop \<or> r = Accept then (r, w)
         else let (r, why, w) = runOut f q w
              in (r, logRateLimit na now f rf q dir_out r why w))"

definition dummyPacket :: bytes where
  "dummyPacket = replicate 20 0xFF"

text \<open>\<open>None\<close> is the \<^verbatim>\<open>panic("unreachable")\<close>.\<close>

definition CheckTCP :: "'ip netaddr \<Rightarrow> int \<Rightarrow> 'ip pkt_filter \<Rightarrow> 'ip \<Rightarrow> 'ip \<Rightarrow> u16 \<Rightarrow> 'ip world \<Rightarrow> (response \<times> 'ip world) option" where
  "CheckTCP na now f srcIP dstIP dstPort w =
     do { pkt \<leftarrow> Decode na (zero_parsed (na_zero na)) dummyPacket;
          if (na_Is4 na srcIP \<and> na_Is6 na dstIP) \<or> (na_Is6 na srcIP \<and> na_Is4 na srcIP) then Some (Drop, w)
          else do {
            pkt \<leftarrow> (if na_Is4 na srcIP then Some (pkt\<lparr>IPVersion := 4\<rparr>)
                    else if na_Is6 na srcIP then Some (pkt\<lparr>IPVersion := 6\<rparr>)
                    else None);
            let pkt = pkt\<lparr>q_Src := IPPort srcIP 0, q_Dst := IPPort dstIP dstPort,
                          IPProto := TCP, TCPFlags := TCPSyn\<rparr>;
            Some (RunIn na now f pkt 0 w) } }"

definition ShieldsUp :: "'ip pkt_filter \<Rightarrow> bool" where
  "ShieldsUp f = f_shieldsUp f"

section \<open>What the rules mean\<close>

lemma protoInList_iff: "protoInList p vs \<longleftrightarrow> p \<in> set vs"
  by (induction vs) auto

lemma ipInList_iff: "ipInList na i ns \<longleftrightarrow> (\<exists>n \<in> set ns. na_Contains na n i)"
  by (induction ns) auto

lemma match_dsts_iff:
  "match_dsts na ds q \<longleftrightarrow>
   (\<exists>d \<in> set ds. na_Contains na (npr_Net d) (ipp_IP (q_Dst q)) \<and> contains (npr_Ports d) (ipp_Port (q_Dst q)))"
  by (induction ds) auto

lemma match_dst_ips_iff: "match_dst_ips na ds q \<longleftrightarrow> (\<exists>d \<in> set ds. na_Contains na (npr_Net d) (ipp_IP (q_Dst q)))"
  by (induction ds) auto

text \<open>The specification: some rule names the protocol, the source, and the destination with its port.\<close>

definition rule_allows :: "'ip netaddr \<Rightarrow> 'ip match_rule list \<Rightarrow> 'ip parsed \<Rightarrow> bool" where
  "rule_allows na ms q \<longleftrightarrow>
     (\<exists>m \<in> set ms. IPProto q \<in> set (m_IPProto m) \<and>
        (\<exists>s \<in> set (m_Srcs m). na_Contains na s (ipp_IP (q_Src q))) \<and>
        (\<exists>d \<in> set (m_Dsts m). na_Contains na (npr_Net d) (ipp_IP (q_Dst q)) \<and>
           contains (npr_Ports d) (ipp_Port (q_Dst q))))"

definition rule_allows_ips :: "'ip netaddr \<Rightarrow> 'ip match_rule list \<Rightarrow> 'ip parsed \<Rightarrow> bool" where
  "rule_allows_ips na ms q \<longleftrightarrow>
     (\<exists>m \<in> set ms. (\<exists>s \<in> set (m_Srcs m). na_Contains na s (ipp_IP (q_Src q))) \<and>
        (\<exists>d \<in> set (m_Dsts m). na_Contains na (npr_Net d) (ipp_IP (q_Dst q))))"

lemma match_iff: "match na ms q \<longleftrightarrow> rule_allows na ms q"
  by (induction ms) (auto simp: rule_allows_def protoInList_iff ipInList_iff match_dsts_iff)

lemma matchIPsOnly_iff: "matchIPsOnly na ms q \<longleftrightarrow> rule_allows_ips na ms q"
  by (induction ms) (auto simp: rule_allows_ips_def ipInList_iff match_dst_ips_iff)

lemma keep_srcs_eq: "keep_srcs keep acc ss = acc @ List.filter (\<lambda>s. keep (pfx_IP s)) ss"
  by (induction ss arbitrary: acc) auto

lemma keep_dsts_eq: "keep_dsts keep acc ds = acc @ List.filter (\<lambda>d. keep (pfx_IP (npr_Net d))) ds"
  by (induction ds arbitrary: acc) auto

definition keep_rule :: "('ip \<Rightarrow> bool) \<Rightarrow> 'ip match_rule \<Rightarrow> 'ip match_rule" where
  "keep_rule keep m =
     \<lparr>m_IPProto = m_IPProto m, m_Dsts = List.filter (\<lambda>d. keep (pfx_IP (npr_Net d))) (m_Dsts m),
      m_Srcs = List.filter (\<lambda>s. keep (pfx_IP s)) (m_Srcs m)\<rparr>"

lemma matchesFamily_loop_eq:
  "matchesFamily_loop keep ret ms =
   ret @ List.filter (\<lambda>m. m_Srcs m \<noteq> [] \<and> m_Dsts m \<noteq> []) (List.map (keep_rule keep) ms)"
  by (induction ms arbitrary: ret) (auto simp: keep_srcs_eq keep_dsts_eq Let_def keep_rule_def)

lemma keep_rule_sel [simp]:
  "m_IPProto (keep_rule keep m) = m_IPProto m"
  "m_Dsts (keep_rule keep m) = List.filter (\<lambda>d. keep (pfx_IP (npr_Net d))) (m_Dsts m)"
  "m_Srcs (keep_rule keep m) = List.filter (\<lambda>s. keep (pfx_IP s)) (m_Srcs m)"
  by (simp_all add: keep_rule_def)

lemma ex_matchesFamily:
  "(\<exists>m \<in> set (matchesFamily ms keep). P (m_IPProto m) \<and> (\<exists>s \<in> set (m_Srcs m). Q s) \<and> (\<exists>d \<in> set (m_Dsts m). R d)) \<longleftrightarrow>
   (\<exists>m \<in> set ms. P (m_IPProto m) \<and> (\<exists>s \<in> set (m_Srcs m). keep (pfx_IP s) \<and> Q s) \<and>
      (\<exists>d \<in> set (m_Dsts m). keep (pfx_IP (npr_Net d)) \<and> R d))"
  (is "?l = ?r")
proof
  assume ?l
  then show ?r by (auto simp: matchesFamily_def matchesFamily_loop_eq)
next
  assume ?r
  then obtain m s d where m: "m \<in> set ms" "P (m_IPProto m)" "s \<in> set (m_Srcs m)" "keep (pfx_IP s)" "Q s"
    "d \<in> set (m_Dsts m)" "keep (pfx_IP (npr_Net d))" "R d" by blast
  then have "s \<in> set (m_Srcs (keep_rule keep m))" "d \<in> set (m_Dsts (keep_rule keep m))" by simp_all
  moreover from this have "m_Srcs (keep_rule keep m) \<noteq> []" "m_Dsts (keep_rule keep m) \<noteq> []" 
    by (auto simp: filter_empty_conv)
  then have "keep_rule keep m \<in> set (matchesFamily ms keep)"
    using m(1) by (auto simp: matchesFamily_def matchesFamily_loop_eq simp del: keep_rule_sel)
  ultimately show ?l using m by (intro bexI [of _ "keep_rule keep m"]) auto
qed

lemmas ex_rule_family = ex_matchesFamily [of _ _ "\<lambda>ps. IPProto q \<in> set ps"
    "\<lambda>s. na_Contains na s (ipp_IP (q_Src q))"
    "\<lambda>d. na_Contains na (npr_Net d) (ipp_IP (q_Dst q)) \<and> contains (npr_Ports d) (ipp_Port (q_Dst q))" for na q]

lemma rule_allows_family:
  assumes c: "\<And>p i. na_Contains na p i \<Longrightarrow> keep (pfx_IP p) = keep i"
    and k: "keep (ipp_IP (q_Src q))" "keep (ipp_IP (q_Dst q))"
  shows "rule_allows na (matchesFamily ms keep) q = rule_allows na ms q"
    and "rule_allows_ips na (matchesFamily ms keep) q = rule_allows_ips na ms q"
proof -
  have s: "keep (pfx_IP p) \<and> na_Contains na p (ipp_IP (q_Src q)) \<longleftrightarrow> na_Contains na p (ipp_IP (q_Src q))"
    "keep (pfx_IP p) \<and> na_Contains na p (ipp_IP (q_Dst q)) \<and> X \<longleftrightarrow> na_Contains na p (ipp_IP (q_Dst q)) \<and> X"
    "keep (pfx_IP p) \<and> na_Contains na p (ipp_IP (q_Dst q)) \<longleftrightarrow> na_Contains na p (ipp_IP (q_Dst q))" for p X
    using c k by blast+
  show "rule_allows na (matchesFamily ms keep) q = rule_allows na ms q"
    unfolding rule_allows_def ex_rule_family s ..
  show "rule_allows_ips na (matchesFamily ms keep) q = rule_allows_ips na ms q"
    unfolding rule_allows_ips_def
    using ex_matchesFamily [of ms keep "\<lambda>_. True" "\<lambda>s. na_Contains na s (ipp_IP (q_Src q))"
        "\<lambda>d. na_Contains na (npr_Net d) (ipp_IP (q_Dst q))"]
    by (simp add: s)
qed

lemma rule_allows_other_family:
  assumes "\<And>p i. na_Contains na p i \<Longrightarrow> keep (pfx_IP p) = keep i"
    and "\<not> keep (ipp_IP (q_Dst q))"
  shows "\<not> rule_allows na (matchesFamily ms keep) q"
  unfolding rule_allows_def ex_rule_family using assms by blast

text \<open>
  C28. Splitting the rules by address family loses nothing: for a packet between IPv4 addresses the
  IPv4 rules of the filter match exactly when the original rules do, with and without ports, and
  likewise for IPv6.
\<close>

theorem matchesFamily_equivalent:
  assumes "netaddr_laws na"
  shows "(na_Is4 na (ipp_IP (q_Src q)) \<and> na_Is4 na (ipp_IP (q_Dst q)) \<longrightarrow>
      match na (matchesFamily ms (na_Is4 na)) q = match na ms q \<and>
      matchIPsOnly na (matchesFamily ms (na_Is4 na)) q = matchIPsOnly na ms q) \<and>
    (na_Is6 na (ipp_IP (q_Src q)) \<and> na_Is6 na (ipp_IP (q_Dst q)) \<longrightarrow>
      match na (matchesFamily ms (na_Is6 na)) q = match na ms q \<and>
      matchIPsOnly na (matchesFamily ms (na_Is6 na)) q = matchIPsOnly na ms q)"
  using Contains_family [OF assms] rule_allows_family [of na "na_Is4 na" q ms] rule_allows_family [of na "na_Is6 na" q ms]
  by (simp add: match_iff matchIPsOnly_iff)

text \<open>A packet between two nodes of a tailnet, for the witnesses of this theory.\<close>

definition sample_rule :: "addr match_rule" where
  "sample_rule = \<lparr>m_IPProto = [TCP, UDP, ICMPv4],
     m_Dsts = [\<lparr>npr_Net = IPPrefix (V4 100 64 0 1) 32, npr_Ports = \<lparr>pr_First = 22, pr_Last = 80\<rparr>\<rparr>],
     m_Srcs = [IPPrefix (V4 100 64 0 0) 10]\<rparr>"

definition sample_packet :: "u8 \<Rightarrow> u16 \<Rightarrow> addr parsed" where
  "sample_packet proto port = (zero_parsed ZeroIP)\<lparr>q_b := replicate 40 0, q_length := 40, q_subofs := 20, IPVersion := 4,
     IPProto := proto, q_Src := IPPort (V4 100 64 0 2) 4000, q_Dst := IPPort (V4 100 64 0 1) port, TCPFlags := TCPSyn\<rparr>"

theorem matchesFamily_equivalent_witness:
  "match addr_netaddr (matchesFamily [sample_rule] (na_Is4 addr_netaddr)) (sample_packet TCP 22) =
   match addr_netaddr [sample_rule] (sample_packet TCP 22) \<and> match addr_netaddr [sample_rule] (sample_packet TCP 22)"
proof -
  have "match addr_netaddr [sample_rule] (sample_packet TCP 22)" by code_simp
  then show ?thesis
    using matchesFamily_equivalent [OF netaddr_laws_addr, of "sample_packet TCP 22" "[sample_rule]"]
    by (simp add: sample_packet_def)
qed

section \<open>Verdicts\<close>

lemma logRateLimit_state [simp]:
  "w_lru (logRateLimit na now f rf q dir r why w) = w_lru w"
  "w_next (logRateLimit na now f rf q dir r why w) = w_next w"
  by (simp_all add: logRateLimit_def Let_def split_beta)

text \<open>The packets that the direction-independent checks let through to the rules.\<close>

definition routine :: "'ip netaddr \<Rightarrow> 'ip parsed \<Rightarrow> bool" where
  "routine na q \<longleftrightarrow> 20 \<le> length (q_b q) \<and> \<not> na_IsMulticast na (ipp_IP (q_Dst q)) \<and>
     \<not> (na_IsLinkLocalUnicast na (ipp_IP (q_Dst q)) \<and> ipp_IP (q_Dst q) \<noteq> gcpDNSAddr na) \<and>
     IPProto q \<noteq> Unknown"

lemma pre_verdict:
  "fst (pre na now f q rf dir w) =
     (if q_b q = [] \<or> routine na q \<and> IPProto q = Fragment then Accept
      else if routine na q then noVerdict else Drop)"
  by (auto simp: pre_def routine_def Buffer_def)

lemma pre_state [simp]:
  "w_lru (snd (pre na now f q rf dir w)) = w_lru w" "w_next (snd (pre na now f q rf dir w)) = w_next w"
  by (simp_all add: pre_def)

text \<open>Whether \<^verbatim>\<open>RunIn\<close> consults, and \<^verbatim>\<open>RunOut\<close> extends, the connection tracking state.\<close>

definition tracked :: "'ip netaddr \<Rightarrow> 'ip parsed \<Rightarrow> bool" where
  "tracked na q \<longleftrightarrow> routine na q \<and> (IPProto q = UDP \<or> IPProto q = SCTP)"

definition flow_of :: "'ip parsed \<Rightarrow> 'ip tuple" where
  "flow_of q = Tuple (IPProto q) (q_Src q) (q_Dst q)"

definition reply_flow :: "'ip parsed \<Rightarrow> 'ip tuple" where
  "reply_flow q = Tuple (IPProto q) (q_Dst q) (q_Src q)"

definition looks_up :: "'ip netaddr \<Rightarrow> 'ip pkt_filter \<Rightarrow> 'ip parsed \<Rightarrow> bool" where
  "looks_up na f q \<longleftrightarrow> tracked na q \<and> (IPVersion q = 4 \<or> IPVersion q = 6) \<and> f_local f (ipp_IP (q_Dst q))"

lemma tracked_nonempty: "tracked na q \<Longrightarrow> q_b q \<noteq> []"
  by (auto simp: tracked_def routine_def)

lemma runIn_lru:
  "w_lru (snd (snd (runIn4 na f q w))) =
     (if f_local f (ipp_IP (q_Dst q)) \<and> (IPProto q = UDP \<or> IPProto q = SCTP)
      then (w_lru w)(f_state f := snd (Get (w_lru w (f_state f)) (flow_of q))) else w_lru w)"
  "w_lru (snd (snd (runIn6 na f q w))) =
     (if f_local f (ipp_IP (q_Dst q)) \<and> (IPProto q = UDP \<or> IPProto q = SCTP)
      then (w_lru w)(f_state f := snd (Get (w_lru w (f_state f)) (flow_of q))) else w_lru w)"
  by (auto simp: runIn4_def runIn6_def Let_def split_beta lru_get_def flow_of_def)

lemma RunIn_state:
  "w_lru (snd (RunIn na now f q rf w)) =
     (if looks_up na f q then (w_lru w)(f_state f := snd (Get (w_lru w (f_state f)) (flow_of q))) else w_lru w)"
proof (cases "fst (pre na now f q rf dir_in w) = noVerdict")
  case True
  then have r: "routine na q" by (simp add: pre_verdict split: if_splits)
  show ?thesis
    by (auto simp: RunIn_def split_beta True runIn_lru looks_up_def tracked_def r)
next
  case False
  then have "\<not> looks_up na f q" "fst (pre na now f q rf dir_in w) = Accept \<or> fst (pre na now f q rf dir_in w) = Drop"
    by (auto simp: pre_verdict looks_up_def tracked_def routine_def split: if_splits)
  then show ?thesis by (auto simp: RunIn_def split_beta)
qed

lemma RunOut_state:
  "w_lru (snd (RunOut na now f q rf w)) =
     (if tracked na q then (w_lru w)(f_state f := Add (w_lru w (f_state f)) (reply_flow q) ()) else w_lru w)"
  by (auto simp: RunOut_def split_beta pre_verdict runOut_def lru_put_def tracked_def reply_flow_def Let_def routine_def)

lemma RunOut_verdict:
  "fst (RunOut na now f q rf w) = (if q_b q = [] \<or> routine na q then Accept else Drop)"
  by (auto simp: RunOut_def split_beta pre_verdict runOut_def Let_def)

text \<open>What the rules of a filter say of an incoming packet, given whether its flow is tracked.\<close>

definition inbound :: "'ip netaddr \<Rightarrow> 'ip pkt_filter \<Rightarrow> bool \<Rightarrow> 'ip parsed \<Rightarrow> bool" where
  "inbound na f cached q \<longleftrightarrow>
     (let icmp = (if IPVersion q = 4 then ICMPv4 else ICMPv6);
          ms = (if IPVersion q = 4 then f_matches4 f else f_matches6 f)
      in (IPVersion q = 4 \<or> IPVersion q = 6) \<and> f_local f (ipp_IP (q_Dst q)) \<and>
         (IPProto q = icmp \<and> (IsEchoResponse q \<or> IsError q \<or> rule_allows_ips na ms q) \<or>
          IPProto q = TCP \<and> (\<not> IsTCPSyn q \<or> rule_allows na ms q) \<or>
          (IPProto q = UDP \<or> IPProto q = SCTP) \<and> (cached \<or> rule_allows na ms q) \<or>
          IPProto q = TSMP))"

lemma RunIn_verdict:
  "fst (RunIn na now f q rf w) =
     (if q_b q = [] \<or> routine na q \<and>
           (IPProto q = Fragment \<or> inbound na f (fst (Get (w_lru w (f_state f)) (flow_of q)) \<noteq> None) q)
      then Accept else Drop)"
proof (cases "q_b q = [] \<or> \<not> routine na q \<or> IPProto q = Fragment")
  case True
  then show ?thesis by (auto simp: RunIn_def split_beta pre_verdict)
next
  case False
  then have v: "fst (pre na now f q rf dir_in w) = noVerdict" by (simp add: pre_verdict)
  let ?w = "snd (pre na now f q rf dir_in w)"
  have "fst (RunIn na now f q rf w) =
      (if IPVersion q = 4 then fst (runIn4 na f q ?w) else if IPVersion q = 6 then fst (runIn6 na f q ?w) else Drop)"
    by (simp add: RunIn_def split_beta v)
  also have "\<dots> = (if inbound na f (fst (Get (w_lru w (f_state f)) (flow_of q)) \<noteq> None) q then Accept else Drop)"
    by (auto simp: runIn4_def runIn6_def inbound_def Let_def split_beta lru_get_def flow_of_def match_iff matchIPsOnly_iff)
  finally show ?thesis using False by auto
qed

text \<open>The address family of a packet is that of its IP version.\<close>

definition family_ok :: "'ip netaddr \<Rightarrow> 'ip parsed \<Rightarrow> bool" where
  "family_ok na q \<longleftrightarrow>
     (IPVersion q = 4 \<longrightarrow> na_Is4 na (ipp_IP (q_Src q)) \<and> na_Is4 na (ipp_IP (q_Dst q))) \<and>
     (IPVersion q = 6 \<longrightarrow> na_Is6 na (ipp_IP (q_Src q)) \<and> na_Is6 na (ipp_IP (q_Dst q)))"

lemma New_fields [simp]:
  "f_local (fst (New na w ms loc lg sh)) = loc"
  "f_matches4 (fst (New na w ms loc lg sh)) = matchesFamily ms (na_Is4 na)"
  "f_matches6 (fst (New na w ms loc lg sh)) = matchesFamily ms (na_Is6 na)"
  "f_shieldsUp (fst (New na w ms loc lg sh)) = False"
  "f_state (fst (New na w ms loc lg (Some g))) = f_state g"
  "f_state (fst (New na w ms loc lg None)) = w_next w"
  "w_lru (snd (New na w ms loc lg None)) = (w_lru w)(w_next w := new_cache lruMax)"
  "w_lru (snd (New na w ms loc lg (Some g))) = w_lru w"
  by (auto simp: New_def Let_def split: option.splits)

lemma inbound_New:
  assumes "netaddr_laws na" and "family_ok na q"
  shows "inbound na (fst (New na w ms loc lg sh)) cached q \<longleftrightarrow>
    (IPVersion q = 4 \<or> IPVersion q = 6) \<and> loc (ipp_IP (q_Dst q)) \<and>
    (IPProto q = (if IPVersion q = 4 then ICMPv4 else ICMPv6) \<and>
       (IsEchoResponse q \<or> IsError q \<or> rule_allows_ips na ms q) \<or>
     IPProto q = TCP \<and> (\<not> IsTCPSyn q \<or> rule_allows na ms q) \<or>
     (IPProto q = UDP \<or> IPProto q = SCTP) \<and> (cached \<or> rule_allows na ms q) \<or>
     IPProto q = TSMP)"
  using assms Contains_family [OF assms(1)] rule_allows_family [of na "na_Is4 na" q ms]
    rule_allows_family [of na "na_Is6 na" q ms]
  unfolding inbound_def family_ok_def Let_def New_fields
  by (cases "IPVersion q = 4"; cases "IPVersion q = 6"; simp)

text \<open>
  C2. The verdict on an incoming packet, for a filter made by \<^verbatim>\<open>New\<close> from a list of rules and a packet
  whose addresses are of the family of its IP version. It is never \<^verbatim>\<open>DropSilently\<close> or \<^verbatim>\<open>noVerdict\<close>. A
  packet is accepted when it is an empty keepalive; when it is a later fragment; or when its
  destination is local and it is an ICMP response or error, an ICMP message between addresses that
  some rule connects, a TCP packet that opens no connection or that some rule allows, a UDP or SCTP
  packet of a tracked flow or that some rule allows, or a TSMP message. Packets that are too
  short, of an unknown protocol, or for multicast or link-local addresses are dropped before.
\<close>

theorem RunIn_verdict_rules:
  assumes "netaddr_laws na" and "family_ok na q" and "f = fst (New na w0 ms loc lg sh)"
  shows "fst (RunIn na now f q rf w) \<in> {Accept, Drop} \<and>
    (fst (RunIn na now f q rf w) = Accept \<longleftrightarrow>
       q_b q = [] \<or>
       routine na q \<and>
         (IPProto q = Fragment \<or>
          (IPVersion q = 4 \<or> IPVersion q = 6) \<and> loc (ipp_IP (q_Dst q)) \<and>
          (IPProto q = (if IPVersion q = 4 then ICMPv4 else ICMPv6) \<and>
             (IsEchoResponse q \<or> IsError q \<or> rule_allows_ips na ms q) \<or>
           IPProto q = TCP \<and> (\<not> IsTCPSyn q \<or> rule_allows na ms q) \<or>
           (IPProto q = UDP \<or> IPProto q = SCTP) \<and>
             (fst (Get (w_lru w (f_state f)) (flow_of q)) \<noteq> None \<or> rule_allows na ms q) \<or>
           IPProto q = TSMP)))"
  unfolding RunIn_verdict assms(3) inbound_New [OF assms(1,2)] by simp

definition sample_world :: "addr world" where
  "sample_world = \<lparr>w_next = 0, w_lru = (\<lambda>_. new_cache lruMax),
     w_acceptBucket = \<lparr>lim_limit = 1/10, lim_burst = 3, lim_tokens = 0, lim_last = 0\<rparr>,
     w_dropBucket = \<lparr>lim_limit = 1/5, lim_burst = 10, lim_tokens = 0, lim_last = 0\<rparr>, w_log = []\<rparr>"

definition sample_local :: "addr ipset" where
  "sample_local i \<longleftrightarrow> i = V4 100 64 0 1"

lemma sample_routine:
  "proto \<in> {TCP, UDP} \<Longrightarrow> routine addr_netaddr (sample_packet proto port)"
  "family_ok addr_netaddr (sample_packet proto port)"
  by (auto simp: routine_def family_ok_def sample_packet_def)

theorem RunIn_verdict_rules_witness:
  "fst (RunIn addr_netaddr 0 (fst (New addr_netaddr sample_world [sample_rule] sample_local sample_local None))
     (sample_packet TCP 22) 0 sample_world) = Accept \<and>
   fst (RunIn addr_netaddr 0 (fst (New addr_netaddr sample_world [sample_rule] sample_local sample_local None))
     (sample_packet TCP 8080) 0 sample_world) = Drop"
proof -
  have a: "rule_allows addr_netaddr [sample_rule] (sample_packet TCP 22)"
    "\<not> rule_allows addr_netaddr [sample_rule] (sample_packet TCP 8080)"
    unfolding match_iff [symmetric] by code_simp+
  have f: "IPVersion (sample_packet TCP p) = 4" "IPProto (sample_packet TCP p) = TCP" "IsTCPSyn (sample_packet TCP p)"
    "q_b (sample_packet TCP p) \<noteq> []" "sample_local (ipp_IP (q_Dst (sample_packet TCP p)))" for p
    by (simp_all add: sample_packet_def sample_local_def IsTCPSyn_def tcp_flag_defs)
  show ?thesis
    using RunIn_verdict_rules [OF netaddr_laws_addr sample_routine(2) [of TCP 22] refl, where w = sample_world and now = 0
        and rf = 0 and ms = "[sample_rule]" and loc = sample_local and lg = sample_local and sh = None and ?w0.0 = sample_world]
      RunIn_verdict_rules [OF netaddr_laws_addr sample_routine(2) [of TCP 8080] refl, where w = sample_world and now = 0
        and rf = 0 and ms = "[sample_rule]" and loc = sample_local and lg = sample_local and sh = None and ?w0.0 = sample_world]
      a f sample_routine(1) [of TCP]
    by auto
qed

section \<open>Connection tracking over a history of packets\<close>

text \<open>The packets that filters see, in order, whichever filter sees them.\<close>

datatype 'ip event = InPacket "'ip pkt_filter" "'ip parsed" run_flags int | OutPacket "'ip pkt_filter" "'ip parsed" run_flags int

fun event_step :: "'ip netaddr \<Rightarrow> 'ip world \<Rightarrow> 'ip event \<Rightarrow> 'ip world" where
  "event_step na w (InPacket f q rf now) = snd (RunIn na now f q rf w)"
| "event_step na w (OutPacket f q rf now) = snd (RunOut na now f q rf w)"

definition run_events :: "'ip netaddr \<Rightarrow> 'ip world \<Rightarrow> 'ip event list \<Rightarrow> 'ip world" where
  "run_events na w es = foldl (event_step na) w es"

text \<open>What an event does to the state with index \<open>st\<close>: at most one lookup or addition.\<close>

fun state_op :: "'ip netaddr \<Rightarrow> nat \<Rightarrow> 'ip event \<Rightarrow> ('ip tuple, unit) cache_op list" where
  "state_op na st (InPacket f q rf now) = (if f_state f = st \<and> looks_up na f q then [OpGet (flow_of q)] else [])"
| "state_op na st (OutPacket f q rf now) = (if f_state f = st \<and> tracked na q then [OpAdd (reply_flow q) ()] else [])"

definition apply_op :: "('ip, unit) cache \<Rightarrow> ('ip tuple, unit) cache_op \<Rightarrow> ('ip, unit) cache" where
  "apply_op c x = (case x of OpGet k \<Rightarrow> snd (Get c k) | OpAdd k v \<Rightarrow> Add c k v)"

lemma event_step_lru: "w_lru (event_step na w e) st = foldl apply_op (w_lru w st) (state_op na st e)"
  by (cases e) (auto simp: RunIn_state RunOut_state apply_op_def)

lemma run_events_lru:
  "w_lru (run_events na w es) st = foldl apply_op (w_lru w st) (concat (List.map (state_op na st) es))"
  by (induction es arbitrary: w) (auto simp: run_events_def event_step_lru)

lemma foldl_apply_inv:
  "cache_inv c \<Longrightarrow> cache_inv (foldl apply_op c xs) \<and> MaxEntries (foldl apply_op c xs) = MaxEntries c"
  by (induction xs arbitrary: c) (auto simp: apply_op_def Get_inv Add_inv split: cache_op.split)

lemma run_events_inv:
  assumes "cache_inv (w_lru w st)"
  shows "cache_inv (w_lru (run_events na w es) st)"
    and "MaxEntries (w_lru (run_events na w es) st) = MaxEntries (w_lru w st)"
  using foldl_apply_inv [OF assms] by (simp_all add: run_events_lru)

text \<open>The flows that a history touches in the state with index \<open>st\<close>.\<close>

definition flows :: "'ip netaddr \<Rightarrow> nat \<Rightarrow> 'ip event list \<Rightarrow> 'ip tuple set" where
  "flows na st es = op_key ` set (concat (List.map (state_op na st) es))"

lemma tracked_survives:
  assumes inv: "cache_inv (w_lru w (f_state f))" "MaxEntries (w_lru w (f_state f)) = lruMax"
    and "tracked na p" and "card (flows na (f_state f) es - {reply_flow p}) < 512"
  shows "fst (Get (w_lru (run_events na (event_step na w (OutPacket f p rf now)) es) (f_state f)) (reply_flow p)) \<noteq> None"
proof -
  let ?c = "w_lru w (f_state f)" and ?xs = "concat (List.map (state_op na (f_state f)) es)"
  have c: "w_lru (event_step na w (OutPacket f p rf now)) (f_state f) = Add ?c (reply_flow p) ()"
    using assms(3) by (simp add: RunOut_state)
  have i: "cache_inv (foldl apply_op (Add ?c (reply_flow p) ()) ?xs)"
    using inv(1) by (simp add: foldl_apply_inv Add_inv)
  have "reply_flow p \<in> fst ` set (cache_abs (foldl apply_op (Add ?c (reply_flow p) ()) ?xs))"
    unfolding apply_op_def
    by (rule flow.survives) (use inv assms(4) in \<open>simp_all add: lruMax_def flows_def\<close>)
  then show ?thesis
    unfolding run_events_lru c by (rule flow.present_iff [OF i, THEN iffD2])
qed

lemma New_state:
  assumes "(f, w) = New na w0 ms loc lg None"
  shows "cache_inv (w_lru w (f_state f))" "MaxEntries (w_lru w (f_state f)) = lruMax"
    "cache_abs (w_lru w (f_state f)) = []" "f_local f = loc"
proof -
  have "f = fst (New na w0 ms loc lg None)" "w = snd (New na w0 ms loc lg None)"
    by (simp_all flip: assms)
  then show "cache_inv (w_lru w (f_state f))" "MaxEntries (w_lru w (f_state f)) = lruMax"
    "cache_abs (w_lru w (f_state f)) = []" "f_local f = loc"
    by (simp_all add: cache_inv_new)
qed

text \<open>
  C12. Replies get through: after any history of a filter made by \<^verbatim>\<open>New\<close>, if a UDP or SCTP packet
  goes out, then a packet of the opposite flow to a local address is accepted, whatever the rules
  say, as long as fewer than 512 other flows were seen in between by the filters that share the state.
\<close>

theorem reply_accepted:
  assumes new: "(f, w) = New na w0 ms loc lg None"
    and out: "tracked na p"
    and few: "card (flows na (f_state f) es2 - {reply_flow p}) < 512"
    and reply: "looks_up na f q" "flow_of q = reply_flow p"
    and w': "w' = run_events na (event_step na (run_events na w es1) (OutPacket f p rf now)) es2"
  shows "fst (RunIn na now' f q rf' w') = Accept"
proof -
  have "fst (Get (w_lru w' (f_state f)) (reply_flow p)) \<noteq> None"
    unfolding w' using New_state [OF new] out few
    by (intro tracked_survives) (simp_all add: run_events_inv)
  then show ?thesis
    using reply by (auto simp: RunIn_verdict looks_up_def tracked_def inbound_def Let_def)
qed

definition sample_out :: "addr parsed" where
  "sample_out = (zero_parsed ZeroIP)\<lparr>q_b := replicate 40 0, q_length := 40, q_subofs := 20, IPVersion := 4,
     IPProto := UDP, q_Src := IPPort (V4 100 64 0 1) 53, q_Dst := IPPort (V4 100 64 0 2) 4000\<rparr>"

theorem reply_accepted_witness:
  "fst (RunIn addr_netaddr 0 (fst (New addr_netaddr sample_world [] sample_local sample_local None)) (sample_packet UDP 53) 0
     (run_events addr_netaddr (event_step addr_netaddr
        (run_events addr_netaddr (snd (New addr_netaddr sample_world [] sample_local sample_local None)) [])
        (OutPacket (fst (New addr_netaddr sample_world [] sample_local sample_local None)) sample_out 0 0)) [])) = Accept"
proof (rule reply_accepted)
  show "(fst (New addr_netaddr sample_world [] sample_local sample_local None),
         snd (New addr_netaddr sample_world [] sample_local sample_local None)) =
        New addr_netaddr sample_world [] sample_local sample_local None" by simp
  show "tracked addr_netaddr sample_out"
    by (simp add: tracked_def routine_def sample_out_def)
  show "looks_up addr_netaddr (fst (New addr_netaddr sample_world [] sample_local sample_local None)) (sample_packet UDP 53)"
    by (simp add: looks_up_def tracked_def sample_routine sample_packet_def sample_local_def)
      (simp add: routine_def)
  show "flow_of (sample_packet UDP 53) = reply_flow sample_out"
    by (simp add: flow_of_def reply_flow_def sample_packet_def sample_out_def)
qed (simp_all add: flows_def)

text \<open>Only outgoing packets put a flow into the state.\<close>

lemma keys_Add: "cache_inv c \<Longrightarrow> fst ` set (cache_abs (Add c k v)) \<subseteq> insert k (fst ` set (cache_abs c))"
  using keys_front [of k v "cache_abs c"]
  by (auto simp: Add_inv lru_add_def Let_def dest!: in_set_butlastD split: if_splits)

lemma keys_Get: "cache_inv c \<Longrightarrow> fst ` set (cache_abs (snd (Get c k))) = fst ` set (cache_abs c)"
  by (simp add: Get_inv keys_lru_touch)

lemma foldl_apply_keys:
  assumes "cache_inv c"
  shows "fst ` set (cache_abs (foldl apply_op c xs)) \<subseteq> fst ` set (cache_abs c) \<union> {k. \<exists>v. OpAdd k v \<in> set xs}"
  using assms
proof (induction xs arbitrary: c)
  case (Cons x xs)
  have i: "cache_inv (apply_op c x)" using foldl_apply_inv [OF Cons.prems, of "[x]"] by simp
  have "fst ` set (cache_abs (apply_op c x)) \<subseteq> fst ` set (cache_abs c) \<union> {k. \<exists>v. OpAdd k v \<in> set [x]}"
    using keys_Add [OF Cons.prems] keys_Get [OF Cons.prems] by (cases x) (auto simp: apply_op_def)
  with Cons.IH [OF i] show ?case by auto
qed simp

text \<open>
  C11. No unsolicited datagrams: let a filter be made by \<^verbatim>\<open>New\<close> with its own state, and take any
  history. If a filter that shares the state accepts a UDP or SCTP packet that none of its rules
  allows, then some filter that shares the state let a packet of the opposite flow out before.
\<close>

theorem unsolicited_dropped:
  assumes new: "(f, w) = New na w0 ms loc lg None"
    and acc: "fst (RunIn na now g q rf (run_events na w es)) = Accept"
    and udp: "IPProto q = UDP \<or> IPProto q = SCTP" "q_b q \<noteq> []"
    and rules: "\<not> rule_allows na (f_matches4 g) q" "\<not> rule_allows na (f_matches6 g) q"
    and share: "f_state g = f_state f"
  shows "\<exists>h p rf' now'. OutPacket h p rf' now' \<in> set es \<and> f_state h = f_state f \<and>
    IPProto p = IPProto q \<and> q_Src p = q_Dst q \<and> q_Dst p = q_Src q \<and> fst (RunOut na now' h p rf' w) = Accept"
proof -
  let ?c = "w_lru w (f_state f)" and ?xs = "concat (List.map (state_op na (f_state f)) es)"
  have "inbound na g (fst (Get (w_lru (run_events na w es) (f_state f)) (flow_of q)) \<noteq> None) q"
    using acc udp share by (auto simp: RunIn_verdict split: if_splits)
  then have "fst (Get (foldl apply_op ?c ?xs) (flow_of q)) \<noteq> None"
    using rules udp(1) by (auto simp: inbound_def Let_def run_events_lru split: if_splits)
  then have "flow_of q \<in> fst ` set (cache_abs (foldl apply_op ?c ?xs))"
    using flow.present_iff foldl_apply_inv New_state(1) [OF new] by blast
  then have "\<exists>v. OpAdd (flow_of q) v \<in> set ?xs"
    using foldl_apply_keys [OF New_state(1) [OF new], of ?xs] New_state(3) [OF new] by auto
  then obtain e where e: "e \<in> set es" "OpAdd (flow_of q) () \<in> set (state_op na (f_state f) e)" by auto
  from e(2) obtain h p rf' now' where p: "e = OutPacket h p rf' now'" "f_state h = f_state f" "tracked na p"
      "reply_flow p = flow_of q"
    by (cases e) (auto split: if_splits)
  then have "fst (RunOut na now' h p rf' w) = Accept" by (simp add: RunOut_verdict tracked_def)
  with p e(1) show ?thesis by (auto simp: flow_of_def reply_flow_def)
qed

theorem unsolicited_dropped_witness:
  "let (f, w) = New addr_netaddr sample_world [] sample_local sample_local None
   in \<exists>h p rf' now'. OutPacket h p rf' now' \<in> set [OutPacket f sample_out 0 0] \<and> q_Src p = IPPort (V4 100 64 0 1) 53"
proof -
  let ?N = "New addr_netaddr sample_world [] sample_local sample_local None"
  have n: "(fst ?N, snd ?N) = ?N" by simp
  have l: "looks_up addr_netaddr (fst ?N) (sample_packet UDP 53)"
    by (simp add: looks_up_def tracked_def sample_routine sample_packet_def sample_local_def) (simp add: routine_def)
  have fl: "flow_of (sample_packet UDP 53) = reply_flow sample_out" "tracked addr_netaddr sample_out"
    by (simp_all add: flow_of_def reply_flow_def sample_packet_def sample_out_def tracked_def routine_def)
  have "fst (Get (w_lru (run_events addr_netaddr (event_step addr_netaddr (snd ?N) (OutPacket (fst ?N) sample_out 0 0)) [])
      (f_state (fst ?N))) (reply_flow sample_out)) \<noteq> None"
    using New_state [OF n] fl by (intro tracked_survives) (simp_all add: flows_def)
  then have "fst (RunIn addr_netaddr 0 (fst ?N) (sample_packet UDP 53) 0
      (run_events addr_netaddr (snd ?N) [OutPacket (fst ?N) sample_out 0 0])) = Accept"
    using l fl by (auto simp: RunIn_verdict looks_up_def tracked_def inbound_def Let_def run_events_def)
  from unsolicited_dropped [OF n this] show ?thesis
    by (auto simp: sample_packet_def rule_allows_def matchesFamily_def split_beta)
qed

section \<open>Shields up, single queries and the log\<close>

lemma NewShieldsUpFilter_fields:
  assumes "(f, w) = NewShieldsUpFilter na w0 loc lg sh"
  shows "f_shieldsUp f" "f_matches4 f = []" "f_matches6 f = []" "f_local f = loc"
    "f_state f = (case sh of Some g \<Rightarrow> if f_shieldsUp g then f_state g else w_next w0 | None \<Rightarrow> w_next w0)"
    "f_state f = w_next w0 \<Longrightarrow> sh = None \<or> \<not> f_shieldsUp (the sh) \<Longrightarrow> w_lru w (f_state f) = new_cache lruMax"
  using assms
  by (auto simp: NewShieldsUpFilter_def split_beta matchesFamily_def New_def Let_def split: option.splits if_splits)

text \<open>
  C21. A shields-up filter rejects incoming connections: whatever the history, it accepts an incoming
  packet only if it is an empty keepalive, a later fragment, an ICMP response or error, a TCP packet
  that opens no connection, a TSMP message, or a UDP or SCTP packet of a tracked flow. Right after the
  switch from a filter that was not shields-up, no flow is tracked.
\<close>

theorem shields_up_blocks:
  assumes new: "(f, w) = NewShieldsUpFilter na w0 loc lg sh"
    and acc: "fst (RunIn na now f q rf w') = Accept"
  shows "(q_b q = [] \<or> IPProto q = Fragment \<or>
     loc (ipp_IP (q_Dst q)) \<and>
       ((IPProto q = ICMPv4 \<or> IPProto q = ICMPv6) \<and> (IsEchoResponse q \<or> IsError q) \<or>
        IPProto q = TCP \<and> \<not> IsTCPSyn q \<or>
        IPProto q = TSMP \<or>
        (IPProto q = UDP \<or> IPProto q = SCTP) \<and> fst (Get (w_lru w' (f_state f)) (flow_of q)) \<noteq> None)) \<and>
    ((\<forall>g. sh = Some g \<longrightarrow> \<not> f_shieldsUp g) \<longrightarrow> fst (Get (w_lru w (f_state f)) (flow_of q)) = None)"
proof
  note fields = NewShieldsUpFilter_fields [OF new]
  show "q_b q = [] \<or> IPProto q = Fragment \<or>
     loc (ipp_IP (q_Dst q)) \<and>
       ((IPProto q = ICMPv4 \<or> IPProto q = ICMPv6) \<and> (IsEchoResponse q \<or> IsError q) \<or>
        IPProto q = TCP \<and> \<not> IsTCPSyn q \<or>
        IPProto q = TSMP \<or>
        (IPProto q = UDP \<or> IPProto q = SCTP) \<and> fst (Get (w_lru w' (f_state f)) (flow_of q)) \<noteq> None)"
    using acc fields(2-4)
    by (auto simp: RunIn_verdict inbound_def Let_def rule_allows_def rule_allows_ips_def split: if_splits)
  show "(\<forall>g. sh = Some g \<longrightarrow> \<not> f_shieldsUp g) \<longrightarrow> fst (Get (w_lru w (f_state f)) (flow_of q)) = None"
  proof
    assume "\<forall>g. sh = Some g \<longrightarrow> \<not> f_shieldsUp g"
    then have "w_lru w (f_state f) = new_cache lruMax"
      using fields(5,6) by (cases sh) auto
    then show "fst (Get (w_lru w (f_state f)) (flow_of q)) = None"
      using Get_inv(2) [OF cache_inv_new] by simp
  qed
qed

theorem shields_up_blocks_witness:
  "let (f, w) = NewShieldsUpFilter addr_netaddr sample_world sample_local sample_local None
   in fst (RunIn addr_netaddr 0 f ((sample_packet TCP 22)\<lparr>TCPFlags := TCPAck\<rparr>) 0 w) = Accept \<and>
      \<not> IsTCPSyn ((sample_packet TCP 22)\<lparr>TCPFlags := TCPAck\<rparr>)"
proof -
  let ?N = "NewShieldsUpFilter addr_netaddr sample_world sample_local sample_local None"
  let ?q = "(sample_packet TCP 22)\<lparr>TCPFlags := TCPAck\<rparr>"
  have "fst (RunIn addr_netaddr 0 (fst ?N) ?q 0 (snd ?N)) = Accept"
    by (simp add: RunIn_verdict routine_def inbound_def sample_packet_def NewShieldsUpFilter_def New_def Let_def
        sample_local_def IsTCPSyn_def tcp_flag_defs)
  moreover have "(fst ?N, snd ?N) = ?N" by simp
  from shields_up_blocks [OF this calculation] have "\<not> IsTCPSyn ?q"
    by (auto simp: sample_packet_def)
  ultimately show ?thesis by (simp add: split_beta)
qed

text \<open>A TCP packet from \<open>src\<close> to \<open>dst\<close> and its port, for the rules to match.\<close>

definition tcp_probe :: "'ip netaddr \<Rightarrow> 'ip \<Rightarrow> 'ip \<Rightarrow> u16 \<Rightarrow> 'ip parsed" where
  "tcp_probe na src dst port =
     (zero_parsed (na_zero na))\<lparr>q_Src := IPPort src 0, q_Dst := IPPort dst port, IPProto := TCP\<rparr>"

lemma Decode_dummy:
  "Decode na q dummyPacket = Some (q\<lparr>q_b := dummyPacket, IPVersion := 0, IPProto := Unknown\<rparr>)"
proof -
  have "drop_bit 4 (0xFF :: u8) = 0xF" by code_simp
  then show ?thesis by (simp add: Decode_def dummyPacket_def idx_def Let_def)
qed

text \<open>
  C24. \<^verbatim>\<open>CheckTCP\<close> returns for a valid source address, and answers whether a new connection is allowed: for
  a filter made by \<^verbatim>\<open>New\<close> it accepts exactly when both addresses are of one family, the destination is
  local and is no multicast or link-local address, and some rule allows TCP from the source to the
  destination port. Although one of its two tests for mixed address families compares the source with
  itself, mixed families are never accepted.
\<close>

theorem CheckTCP_verdict:
  assumes laws: "netaddr_laws na" and src: "na_Is4 na src \<or> na_Is6 na src"
    and f: "f = fst (New na w0 ms loc lg sh)"
  shows "\<exists>r w'. CheckTCP na now f src dst port w = Some (r, w') \<and>
    (r = Accept \<longleftrightarrow> na_Is4 na src = na_Is4 na dst \<and> na_Is6 na src = na_Is6 na dst \<and> loc dst \<and>
       \<not> na_IsMulticast na dst \<and> \<not> (na_IsLinkLocalUnicast na dst \<and> dst \<noteq> gcpDNSAddr na) \<and>
       rule_allows na ms (tcp_probe na src dst port))"
proof -
  define q where "q = tcp_probe na src dst port"
  define p where "p = (zero_parsed (na_zero na))\<lparr>q_b := dummyPacket,
    IPVersion := (if na_Is4 na src then 4 else 6),
    q_Src := IPPort src 0, q_Dst := IPPort dst port, IPProto := TCP, TCPFlags := TCPSyn\<rparr>"
  have p: "q_b p \<noteq> []" "length (q_b p) = 20" "IPProto p = TCP" "q_Dst p = IPPort dst port" "IsTCPSyn p"
      "IPVersion p = (if na_Is4 na src then 4 else 6)"
    by (simp_all add: p_def dummyPacket_def IsTCPSyn_def tcp_flag_defs)
  have ra: "rule_allows na xs p = rule_allows na xs q" for xs
    by (simp add: rule_allows_def p_def q_def tcp_probe_def)
  have nf: "\<not> (na_Is4 na i \<and> na_Is6 na i)" for i using not_Is4_and_Is6 [OF laws, of i] by simp
  have fam: "na_Is4 na (pfx_IP x) = na_Is4 na i \<and> na_Is6 na (pfx_IP x) = na_Is6 na i" if "na_Contains na x i" for x i
    using Contains_family [OF laws that] .
  have verdict: "fst (RunIn na now f p 0 w) = Accept \<longleftrightarrow>
      loc dst \<and> \<not> na_IsMulticast na dst \<and> \<not> (na_IsLinkLocalUnicast na dst \<and> dst \<noteq> gcpDNSAddr na) \<and>
      rule_allows na (if na_Is4 na src then matchesFamily ms (na_Is4 na) else matchesFamily ms (na_Is6 na)) p"
    using p by (simp add: RunIn_verdict routine_def inbound_def f Let_def)
  have rules: "rule_allows na (if na_Is4 na src then matchesFamily ms (na_Is4 na) else matchesFamily ms (na_Is6 na)) p \<longleftrightarrow>
      na_Is4 na src = na_Is4 na dst \<and> na_Is6 na src = na_Is6 na dst \<and> rule_allows na ms q"
  proof (cases "na_Is4 na src")
    case True
    have "rule_allows na (matchesFamily ms (na_Is4 na)) p \<longleftrightarrow> na_Is4 na dst \<and> rule_allows na ms p"
      using rule_allows_family(1) [of na "na_Is4 na" p ms] rule_allows_other_family [of na "na_Is4 na" p ms] fam True
      by (cases "na_Is4 na dst") (simp_all add: p_def)
    then show ?thesis using True nf [of src] nf [of dst] by (auto simp: ra)
  next
    case False
    then have "na_Is6 na src" using src by simp
    then have "rule_allows na (matchesFamily ms (na_Is6 na)) p \<longleftrightarrow> na_Is6 na dst \<and> rule_allows na ms p"
      using rule_allows_family(1) [of na "na_Is6 na" p ms] rule_allows_other_family [of na "na_Is6 na" p ms] fam
      by (cases "na_Is6 na dst") (simp_all add: p_def)
    then show ?thesis using False \<open>na_Is6 na src\<close> nf [of dst] by (auto simp: ra)
  qed
  show ?thesis
  proof (cases "na_Is4 na src \<and> na_Is6 na dst")
    case True
    then show ?thesis using nf by (auto simp: CheckTCP_def Decode_dummy)
  next
    case False
    then have "CheckTCP na now f src dst port w = Some (RunIn na now f p 0 w)"
      using src nf [of src] by (auto simp: CheckTCP_def Decode_dummy p_def)
    then show ?thesis using verdict rules by (cases "RunIn na now f p 0 w") (auto simp: q_def)
  qed
qed

theorem CheckTCP_verdict_witness:
  "\<exists>w'. CheckTCP addr_netaddr 0 (fst (New addr_netaddr sample_world [sample_rule] sample_local sample_local None))
     (V4 100 64 0 2) (V4 100 64 0 1) 22 sample_world = Some (Accept, w')"
proof -
  have "match addr_netaddr [sample_rule] (tcp_probe addr_netaddr (V4 100 64 0 2) (V4 100 64 0 1) 22)"
    by code_simp
  then show ?thesis
    using CheckTCP_verdict [where na = addr_netaddr and src = "V4 100 64 0 2" and dst = "V4 100 64 0 1" and port = 22
        and now = 0 and w = sample_world and ms = "[sample_rule]" and loc = sample_local, OF netaddr_laws_addr _ refl]
    by (auto simp: match_iff sample_local_def)
qed

text \<open>What an operation may add to the log: at most one line, on this packet, and only if it may be logged.\<close>

definition logged :: "'ip pkt_filter \<Rightarrow> 'ip parsed \<Rightarrow> 'ip world \<Rightarrow> 'ip world \<Rightarrow> bool" where
  "logged f q w w' \<longleftrightarrow> w_log w' = w_log w \<or>
     loggingAllowed f q \<and> (\<exists>l. w_log w' = w_log w @ [l] \<and> ll_packet l = q)"

lemma logged_limit: "w_log w1 = w_log w \<Longrightarrow> logged f q w (logRateLimit na now f rf q dir r why w1)"
  by (auto simp: logged_def logRateLimit_def Let_def split_beta)

lemma logged_pre:
  "logged f q w (snd (pre na now f q rf dir w))"
  "fst (pre na now f q rf dir w) = noVerdict \<Longrightarrow> w_log (snd (pre na now f q rf dir w)) = w_log w"
  by (auto simp: pre_def logged_limit) (auto simp: logged_def)

lemma run_log:
  "w_log (snd (snd (runIn4 na f q w))) = w_log w" "w_log (snd (snd (runIn6 na f q w))) = w_log w"
  "w_log (snd (snd (runOut f q w))) = w_log w"
  by (simp_all add: runIn4_def runIn6_def runOut_def lru_get_def lru_put_def Let_def split_beta)

text \<open>
  C29. The log respects \<^verbatim>\<open>logIPs\<close>: filtering a packet, in either direction, adds at most one line to the
  log, that line is about this packet, and it is added only if both addresses of the packet are in \<^verbatim>\<open>logIPs\<close>.
\<close>

theorem filter_log_private:
  "logged f q w (snd (RunIn na now f q rf w)) \<and> logged f q w (snd (RunOut na now f q rf w))"
proof
  let ?r = "fst (pre na now f q rf dir_in w)"
  show "logged f q w (snd (RunIn na now f q rf w))"
  proof (cases "?r = Accept \<or> ?r = Drop")
    case True
    then show ?thesis using logged_pre(1) by (simp add: RunIn_def split_beta)
  next
    case False
    then have "?r = noVerdict" by (simp add: pre_verdict split: if_splits)
    from logged_pre(2) [OF this] False show ?thesis
      by (auto simp: RunIn_def split_beta run_log intro!: logged_limit)
  qed
  let ?r = "fst (pre na now f q rf dir_out w)"
  show "logged f q w (snd (RunOut na now f q rf w))"
  proof (cases "?r = Accept \<or> ?r = Drop")
    case True
    then show ?thesis using logged_pre(1) by (auto simp: RunOut_def split_beta)
  next
    case False
    then have "?r = noVerdict" by (simp add: pre_verdict split: if_splits)
    from logged_pre(2) [OF this] False show ?thesis
      by (auto simp: RunOut_def split_beta run_log intro!: logged_limit)
  qed
qed

text \<open>
  Fragments bypass the destination check: \<^verbatim>\<open>RunIn\<close> accepts a later fragment whatever its destination,
  local or not, provided only that it is no multicast or link-local address.
\<close>

theorem fragment_not_local_accepted:
  assumes "routine na q" and "IPProto q = Fragment"
  shows "fst (RunIn na now (f\<lparr>f_local := (\<lambda>_. False)\<rparr>) q rf w) = Accept"
  using assms by (simp add: RunIn_verdict)

theorem fragment_not_local_accepted_witness:
  "fst (RunIn addr_netaddr 0 ((fst (New addr_netaddr sample_world [] sample_local sample_local None))\<lparr>f_local := (\<lambda>_. False)\<rparr>)
     (sample_packet Fragment 0) 0 sample_world) = Accept"
  by (rule fragment_not_local_accepted) (simp_all add: routine_def sample_packet_def)

end
