(* ===== verification/Gostrings.thy ===== *)
theory Gostrings
  imports Prelude "HOL-Library.Char_ord" "HOL-Library.Sublist"
begin

text \<open>
  The functions of Go's package \<^verbatim>\<open>strings\<close> that the components use. A Go string is a sequence of bytes and
  is a \<open>string\<close> here; a character is a byte. A slice for which the program tells \<^verbatim>\<open>nil\<close> from empty has
  type \<open>'a list option\<close>.
\<close>

definition elems :: "'a list option \<Rightarrow> 'a list" where
  "elems s = (case s of None \<Rightarrow> [] | Some xs \<Rightarrow> xs)"

lemma elems_simps [simp]: "elems None = []" "elems (Some xs) = xs"
  by (simp_all add: elems_def)

section \<open>Searching and cutting\<close>

definition str_contains :: "string \<Rightarrow> char \<Rightarrow> bool" where
  "str_contains s c \<longleftrightarrow> List.member s c"

definition str_count :: "string \<Rightarrow> char \<Rightarrow> nat" where
  "str_count s c = length (List.filter (\<lambda>x. x = c) s)"

text \<open>The two parts of a string around the first occurrence of a character.\<close>

definition str_cut :: "string \<Rightarrow> char \<Rightarrow> string \<times> string" where
  "str_cut s c = (takeWhile (\<lambda>x. x \<noteq> c) s, drop 1 (dropWhile (\<lambda>x. x \<noteq> c) s))"

fun has_prefix :: "string \<Rightarrow> string \<Rightarrow> bool" where
  "has_prefix s [] = True"
| "has_prefix [] (p # ps) = False"
| "has_prefix (c # s) (p # ps) = (c = p \<and> has_prefix s ps)"

definition has_suffix :: "string \<Rightarrow> string \<Rightarrow> bool" where
  "has_suffix s p = has_prefix (rev s) (rev p)"

definition trim_prefix :: "string \<Rightarrow> string \<Rightarrow> string" where
  "trim_prefix s p = (if has_prefix s p then drop (length p) s else s)"

definition trim_suffix :: "string \<Rightarrow> string \<Rightarrow> string" where
  "trim_suffix s p = (if has_suffix s p then take (length s - length p) s else s)"

text \<open>\<^verbatim>\<open>strings.Trim(s, cutset)\<close> for a cutset of one character.\<close>

definition trim_char :: "string \<Rightarrow> char \<Rightarrow> string" where
  "trim_char s c = rev (dropWhile (\<lambda>x. x = c) (rev (dropWhile (\<lambda>x. x = c) s)))"

lemma has_prefix_iff [simp]: "has_prefix s p \<longleftrightarrow> prefix p s"
  by (induction s p rule: has_prefix.induct) auto

lemma has_suffix_iff [simp]: "has_suffix s p \<longleftrightarrow> suffix p s"
  by (simp add: has_suffix_def suffix_to_prefix)

lemma trim_suffix_append [simp]: "trim_suffix (s @ p) p = s"
  by (simp add: trim_suffix_def suffix_def)

lemma trim_suffix_none: "\<not> suffix p s \<Longrightarrow> trim_suffix s p = s"
  by (simp add: trim_suffix_def)

section \<open>Splitting\<close>

text \<open>\<^verbatim>\<open>strings.Split(s, sep)\<close> for a separator of one character, and \<^verbatim>\<open>strings.Join\<close>.\<close>

fun split_on :: "char \<Rightarrow> string \<Rightarrow> string list" where
  "split_on c [] = [[]]"
| "split_on c (x # xs) =
     (if x = c then [] # split_on c xs
      else (case split_on c xs of [] \<Rightarrow> [[x]] | p # ps \<Rightarrow> (x # p) # ps))"

fun join_with :: "string \<Rightarrow> string list \<Rightarrow> string" where
  "join_with s [] = []"
| "join_with s [p] = p"
| "join_with s (p # q # ps) = p @ s @ join_with s (q # ps)"

lemma split_on_not_Nil [simp]: "split_on c s \<noteq> []"
  by (induction s) (auto split: list.split)

lemma split_on_word [simp]: "c \<notin> set s \<Longrightarrow> split_on c s = [s]"
  by (induction s) auto

lemma split_on_append_sep [simp]:
  "c \<notin> set p \<Longrightarrow> split_on c (p @ c # s) = p # split_on c s"
  by (induction p) auto

lemma split_on_append: "split_on c (p @ c # s) = split_on c p @ split_on c s"
  by (induction p) (auto split: list.split)

lemma split_on_no_sep: "p \<in> set (split_on c s) \<Longrightarrow> c \<notin> set p"
  by (induction s arbitrary: p) (auto split: if_splits list.splits)

lemma join_Cons_Cons: "join_with s ((x # p) # ps) = x # join_with s (p # ps)"
  by (cases ps) auto

lemma join_Nil_Cons: "ps \<noteq> [] \<Longrightarrow> join_with s ([] # ps) = s @ join_with s ps"
  by (cases ps) auto

lemma join_split [simp]: "join_with [c] (split_on c s) = s"
  by (induction s) (auto simp: join_Cons_Cons join_Nil_Cons split: list.split)

lemma split_join:
  "ps \<noteq> [] \<Longrightarrow> (\<forall>p \<in> set ps. c \<notin> set p) \<Longrightarrow> split_on c (join_with [c] ps) = ps"
  by (induction "[c]" ps rule: join_with.induct) auto

section \<open>Characters\<close>

definition islower :: "char \<Rightarrow> bool" where
  "islower c \<longleftrightarrow> CHR ''a'' \<le> c \<and> c \<le> CHR ''z''"

definition isupper :: "char \<Rightarrow> bool" where
  "isupper c \<longleftrightarrow> CHR ''A'' \<le> c \<and> c \<le> CHR ''Z''"

definition isdigit :: "char \<Rightarrow> bool" where
  "isdigit c \<longleftrightarrow> CHR ''0'' \<le> c \<and> c \<le> CHR ''9''"

definition tolower :: "char \<Rightarrow> char" where
  "tolower c = (if isupper c then char_of (of_char c + 32 :: nat) else c)"

lemma islower_tolower [simp]: "isupper c \<Longrightarrow> islower (tolower c)"
  by (auto simp: islower_def isupper_def tolower_def less_eq_char_def)

lemma tolower_id [simp]: "\<not> isupper c \<Longrightarrow> tolower c = c"
  by (simp add: tolower_def)

lemma lower_not_upper: "islower c \<Longrightarrow> \<not> isupper c"
  by (auto simp: islower_def isupper_def less_eq_char_def)

lemma digit_not_upper: "isdigit c \<Longrightarrow> \<not> isupper c"
  by (auto simp: isdigit_def isupper_def less_eq_char_def)

text \<open>
  \<^verbatim>\<open>strings.EqualFold(s, t)\<close> for a string \<open>t\<close> of ASCII characters. Two characters outside ASCII fold to an
  ASCII letter: the Kelvin sign, bytes E2 84 AA, and the long s, bytes C5 BF.
\<close>

fun equal_fold :: "string \<Rightarrow> string \<Rightarrow> bool" where
  "equal_fold [] t = (t = [])"
| "equal_fold s [] = False"
| "equal_fold (c # s) (d # t) =
     (if tolower c = tolower d then equal_fold s t
      else if tolower d = CHR ''k'' \<and> c = CHR 0xE2 \<and> take 2 s = [CHR 0x84, CHR 0xAA] then equal_fold (drop 2 s) t
      else if tolower d = CHR ''s'' \<and> c = CHR 0xC5 \<and> take 1 s = [CHR 0xBF] then equal_fold (drop 1 s) t
      else False)"

lemma equal_fold_refl [simp]: "equal_fold s s"
  by (induction s) auto

section \<open>Decimal numbers\<close>

definition digit_char :: "nat \<Rightarrow> char" where
  "digit_char n = char_of (48 + n)"

fun fmt_nat :: "nat \<Rightarrow> string" where
  "fmt_nat n = (if n < 10 then [digit_char n] else fmt_nat (n div 10) @ [digit_char (n mod 10)])"

declare fmt_nat.simps [simp del]

definition fmt_int :: "int \<Rightarrow> string" where
  "fmt_int i = (if i < 0 then ''-'' @ fmt_nat (nat (- i)) else fmt_nat (nat i))"

definition dec_value :: "string \<Rightarrow> nat" where
  "dec_value ds = foldl (\<lambda>n c. 10 * n + (of_char c - 48)) 0 ds"

lemma isdigit_digit_char [simp]: "n < 10 \<Longrightarrow> isdigit (digit_char n)"
  by (simp add: isdigit_def digit_char_def less_eq_char_def)

lemma fmt_nat_digits: "c \<in> set (fmt_nat n) \<Longrightarrow> isdigit c"
proof (induction n rule: fmt_nat.induct)
  case (1 n)
  then show ?case by (cases "n < 10") (subst (asm) (2) fmt_nat.simps, auto)+
qed

lemma fmt_nat_not_Nil [simp]: "fmt_nat n \<noteq> []"
  by (subst fmt_nat.simps) simp

lemma dec_value_fmt_nat [simp]: "dec_value (fmt_nat n) = n"
proof (induction n rule: fmt_nat.induct)
  case (1 n)
  show ?case
  proof (cases "n < 10")
    case True
    then show ?thesis by (subst fmt_nat.simps) (simp add: dec_value_def digit_char_def)
  next
    case False
    then have "dec_value (fmt_nat n) = 10 * dec_value (fmt_nat (n div 10)) + n mod 10"
      by (subst fmt_nat.simps) (simp add: dec_value_def digit_char_def)
    with 1 False show ?thesis by simp
  qed
qed

end
