(* ===== verification/Filterrules.thy ===== *)
theory Filterrules
  imports Pktfilter Gostrings
begin

text \<open>
  The conversion of the control server's filter rules into the rules of the packet filter:
  \<^verbatim>\<open>wgengine/filter/tailcfg.go\<close>. The address parsers of \<^verbatim>\<open>inet.af/netaddr\<close> are the record
  \<open>netaddr_parse\<close>, an argument of the definitions. An error is a value of \<open>rule_error\<close>, with the
  arguments of its text.
\<close>

record 'ip netaddr_parse =
  np_ParseIP :: "string \<Rightarrow> 'ip option"
  np_ParseIPPrefix :: "string \<Rightarrow> 'ip ipprefix option"
  np_Masked :: "'ip ipprefix \<Rightarrow> 'ip ipprefix"
  np_RangeValid :: "'ip \<Rightarrow> 'ip \<Rightarrow> bool"
  np_RangePrefixes :: "'ip \<Rightarrow> 'ip \<Rightarrow> 'ip ipprefix list"

datatype 'ip rule_error =
    ErrParseIPPrefix string
  | ErrNonNetworkBits "'ip ipprefix"
  | ErrParseIP string
  | ErrInvalidRange string
  | ErrInvalidIP string
  | ErrInvalidCIDR int string

record tc_net_port_range =
  tc_IP :: string
  tc_Bits :: "int option"
  tc_Ports :: port_range

record filter_rule =
  fr_SrcIPs :: "string list"
  fr_SrcBits :: "int list"
  fr_DstPorts :: "tc_net_port_range list"
  fr_IPProto :: "int list"

definition defaultProtos :: "u8 list" where
  "defaultProtos = [TCP, UDP, ICMPv4, ICMPv6]"

definition zeroIP4 :: "'ip netaddr \<Rightarrow> 'ip" where
  "zeroIP4 na = na_IPv4 na 0 0 0 0"

definition zeroIP6 :: "'ip netaddr \<Rightarrow> 'ip" where
  "zeroIP6 na = na_IPFrom16 na (replicate 16 0)"

definition parseIPSet :: "'ip netaddr \<Rightarrow> 'ip netaddr_parse \<Rightarrow> string \<Rightarrow> int option \<Rightarrow> 'ip rule_error + 'ip ipprefix list" where
  "parseIPSet na np arg bits =
     (if arg = ''*'' then Inr [IPPrefix (zeroIP4 na) 0, IPPrefix (zeroIP6 na) 0]
      else if str_contains arg (CHR ''/'')
      then case np_ParseIPPrefix np arg of
             None \<Rightarrow> Inl (ErrParseIPPrefix arg)
           | Some pfx \<Rightarrow> if pfx \<noteq> np_Masked np pfx then Inl (ErrNonNetworkBits pfx) else Inr [pfx]
      else if str_count arg (CHR ''-'') = 1
      then let (ip1s, ip2s) = str_cut arg (CHR ''-'')
           in case np_ParseIP np ip1s of
                None \<Rightarrow> Inl (ErrParseIP ip1s)
              | Some ip1 \<Rightarrow>
                  (case np_ParseIP np ip2s of
                     None \<Rightarrow> Inl (ErrParseIP ip2s)
                   | Some ip2 \<Rightarrow>
                       if \<not> np_RangeValid np ip1 ip2 then Inl (ErrInvalidRange arg)
                       else Inr (np_RangePrefixes np ip1 ip2))
      else case np_ParseIP np arg of
             None \<Rightarrow> Inl (ErrInvalidIP arg)
           | Some ip \<Rightarrow>
               (case bits of
                  None \<Rightarrow> Inr [IPPrefix ip (na_BitLen na ip)]
                | Some b \<Rightarrow>
                    if b < 0 \<or> b > int (unat (na_BitLen na ip)) then Inl (ErrInvalidCIDR b arg)
                    else Inr [IPPrefix ip (word_of_int b)]))"

text \<open>The loops over \<^verbatim>\<open>r.IPProto\<close>, \<^verbatim>\<open>r.SrcIPs\<close> and \<^verbatim>\<open>r.DstPorts\<close>. A failed parse returns no prefixes.\<close>

fun protos_loop :: "u8 list \<Rightarrow> int list \<Rightarrow> u8 list" where
  "protos_loop acc [] = acc"
| "protos_loop acc (n # ns) = protos_loop (if n \<ge> 0 \<and> n \<le> 0xff then acc @ [word_of_int n] else acc) ns"

fun srcs_loop ::
  "'ip netaddr \<Rightarrow> 'ip netaddr_parse \<Rightarrow> int list \<Rightarrow> nat \<Rightarrow> string list \<Rightarrow> 'ip ipprefix list \<Rightarrow> 'ip rule_error option \<Rightarrow> 'ip ipprefix list \<times> 'ip rule_error option" where
  "srcs_loop na np srcBits i [] acc erracc = (acc, erracc)"
| "srcs_loop na np srcBits i (s # ss) acc erracc =
     (let bits = (if length srcBits > i then Some (srcBits ! i) else None)
      in case parseIPSet na np s bits of
           Inl e \<Rightarrow> if erracc = None then srcs_loop na np srcBits (Suc i) ss acc (Some e)
                    else srcs_loop na np srcBits (Suc i) ss (acc @ []) erracc
         | Inr nets \<Rightarrow> srcs_loop na np srcBits (Suc i) ss (acc @ nets) erracc)"

fun nets_loop :: "port_range \<Rightarrow> 'ip ipprefix list \<Rightarrow> 'ip net_port_range list \<Rightarrow> 'ip net_port_range list" where
  "nets_loop ports [] acc = acc"
| "nets_loop ports (n # ns) acc =
     nets_loop ports ns (acc @ [\<lparr>npr_Net = n, npr_Ports = \<lparr>pr_First = pr_First ports, pr_Last = pr_Last ports\<rparr>\<rparr>])"

fun dsts_loop ::
  "'ip netaddr \<Rightarrow> 'ip netaddr_parse \<Rightarrow> tc_net_port_range list \<Rightarrow> 'ip net_port_range list \<Rightarrow> 'ip rule_error option \<Rightarrow> 'ip net_port_range list \<times> 'ip rule_error option" where
  "dsts_loop na np [] acc erracc = (acc, erracc)"
| "dsts_loop na np (d # ds) acc erracc =
     (case parseIPSet na np (tc_IP d) (tc_Bits d) of
        Inl e \<Rightarrow> if erracc = None then dsts_loop na np ds acc (Some e)
                 else dsts_loop na np ds (nets_loop (tc_Ports d) [] acc) erracc
      | Inr nets \<Rightarrow> dsts_loop na np ds (nets_loop (tc_Ports d) nets acc) erracc)"

fun rules_loop ::
  "'ip netaddr \<Rightarrow> 'ip netaddr_parse \<Rightarrow> filter_rule list \<Rightarrow> 'ip match_rule list \<Rightarrow> 'ip rule_error option \<Rightarrow> 'ip match_rule list \<times> 'ip rule_error option" where
  "rules_loop na np [] mm erracc = (mm, erracc)"
| "rules_loop na np (r # pf) mm erracc =
     (let protos = (if length (fr_IPProto r) = 0 then defaultProtos else protos_loop [] (fr_IPProto r));
          (srcs, erracc) = srcs_loop na np (fr_SrcBits r) 0 (fr_SrcIPs r) [] erracc;
          (dsts, erracc) = dsts_loop na np (fr_DstPorts r) [] erracc
      in rules_loop na np pf (mm @ [\<lparr>m_IPProto = protos, m_Dsts = dsts, m_Srcs = srcs\<rparr>]) erracc)"

definition MatchesFromFilterRules ::
  "'ip netaddr \<Rightarrow> 'ip netaddr_parse \<Rightarrow> filter_rule list \<Rightarrow> 'ip match_rule list \<times> 'ip rule_error option" where
  "MatchesFromFilterRules na np pf = rules_loop na np pf [] None"

section \<open>The conversion, rule by rule\<close>

text \<open>What an entry contributes: the prefixes it denotes, or nothing when it does not parse.\<close>

definition denotes :: "'ip netaddr \<Rightarrow> 'ip netaddr_parse \<Rightarrow> string \<Rightarrow> int option \<Rightarrow> 'ip ipprefix list" where
  "denotes na np arg bits = (case parseIPSet na np arg bits of Inl _ \<Rightarrow> [] | Inr ns \<Rightarrow> ns)"

definition src_bits :: "filter_rule \<Rightarrow> nat \<Rightarrow> int option" where
  "src_bits r i = (if i < length (fr_SrcBits r) then Some (fr_SrcBits r ! i) else None)"

definition convert :: "'ip netaddr \<Rightarrow> 'ip netaddr_parse \<Rightarrow> filter_rule \<Rightarrow> 'ip match_rule" where
  "convert na np r =
     \<lparr>m_IPProto = (if fr_IPProto r = [] then defaultProtos
                   else List.map word_of_int (List.filter (\<lambda>n. 0 \<le> n \<and> n \<le> 255) (fr_IPProto r))),
      m_Dsts = concat (List.map (\<lambda>d. List.map (\<lambda>n. \<lparr>npr_Net = n, npr_Ports = tc_Ports d\<rparr>)
                 (denotes na np (tc_IP d) (tc_Bits d))) (fr_DstPorts r)),
      m_Srcs = concat (List.map (\<lambda>(i, s). denotes na np s (src_bits r i)) (List.enumerate 0 (fr_SrcIPs r)))\<rparr>"

text \<open>The errors of a rule, in the order in which its entries are parsed.\<close>

definition rule_errors :: "'ip netaddr \<Rightarrow> 'ip netaddr_parse \<Rightarrow> filter_rule \<Rightarrow> 'ip rule_error list" where
  "rule_errors na np r =
     [e. (i, s) \<leftarrow> List.enumerate 0 (fr_SrcIPs r), e \<leftarrow> (case parseIPSet na np s (src_bits r i) of Inl e \<Rightarrow> [e] | Inr _ \<Rightarrow> [])] @
     [e. d \<leftarrow> fr_DstPorts r, e \<leftarrow> (case parseIPSet na np (tc_IP d) (tc_Bits d) of Inl e \<Rightarrow> [e] | Inr _ \<Rightarrow> [])]"

definition first_error :: "'e option \<Rightarrow> 'e list \<Rightarrow> 'e option" where
  "first_error acc es = (case acc of Some e \<Rightarrow> Some e | None \<Rightarrow> (case es of [] \<Rightarrow> None | e # _ \<Rightarrow> Some e))"

lemma first_error_simps [simp]:
  "first_error (Some e) es = Some e" "first_error acc [] = acc" "first_error None (e # es) = Some e"
  "first_error (first_error acc es) es' = first_error acc (es @ es')"
  by (auto simp: first_error_def split: option.split list.split)

lemma protos_loop_eq: "protos_loop acc ns = acc @ List.map word_of_int (List.filter (\<lambda>n. 0 \<le> n \<and> n \<le> 255) ns)"
  by (induction ns arbitrary: acc) auto

lemma nets_loop_eq: "nets_loop ports ns acc = acc @ List.map (\<lambda>n. \<lparr>npr_Net = n, npr_Ports = ports\<rparr>) ns"
  by (induction ns arbitrary: acc) auto

lemma srcs_loop_eq:
  "srcs_loop na np (fr_SrcBits r) i ss acc err =
     (acc @ concat (List.map (\<lambda>(i, s). denotes na np s (src_bits r i)) (List.enumerate i ss)),
      first_error err [e. (i, s) \<leftarrow> List.enumerate i ss,
        e \<leftarrow> (case parseIPSet na np s (src_bits r i) of Inl e \<Rightarrow> [e] | Inr _ \<Rightarrow> [])])"
  by (induction ss arbitrary: i acc err)
    (auto simp: src_bits_def denotes_def Let_def first_error_def split: sum.splits option.splits)

lemma dsts_loop_eq:
  "dsts_loop na np ds acc err =
     (acc @ concat (List.map (\<lambda>d. List.map (\<lambda>n. \<lparr>npr_Net = n, npr_Ports = tc_Ports d\<rparr>)
                 (denotes na np (tc_IP d) (tc_Bits d))) ds),
      first_error err [e. d \<leftarrow> ds, e \<leftarrow> (case parseIPSet na np (tc_IP d) (tc_Bits d) of Inl e \<Rightarrow> [e] | Inr _ \<Rightarrow> [])])"
  by (induction ds arbitrary: acc err)
    (auto simp: denotes_def nets_loop_eq first_error_def split: sum.splits option.splits)

lemma rules_loop_eq:
  "rules_loop na np pf mm err =
     (mm @ List.map (convert na np) pf, first_error err (concat (List.map (rule_errors na np) pf)))"
  by (induction pf arbitrary: mm err)
    (simp_all add: srcs_loop_eq dsts_loop_eq protos_loop_eq Let_def convert_def rule_errors_def)

text \<open>
  C23. The conversion of filter rules works rule by rule and keeps their order: every rule gives one
  \<^verbatim>\<open>Match\<close> whose sources and destinations are those of the entries that parse, in order, whose ports are
  those of the rule, and whose protocols are the given ones that fit a byte, or the default ones. The error
  returned is that of the first entry that does not parse; a bad entry never removes or changes a good one.
\<close>

theorem MatchesFromFilterRules_spec:
  "MatchesFromFilterRules na np pf =
     (List.map (convert na np) pf, first_error None (concat (List.map (rule_errors na np) pf)))"
  by (simp add: MatchesFromFilterRules_def rules_loop_eq)

end
