(* ===== verification/Tsaddr.thy ===== *)
theory Tsaddr
  imports Netaddr
begin

text \<open>
  The address ranges of \<^verbatim>\<open>net/tsaddr/tsaddr.go\<close>. The prefixes that the program parses once from
  constant strings are written with the constructors of the address package.
\<close>

definition ChromeOSVMRange :: "'ip netaddr \<Rightarrow> 'ip ipprefix" where
  "ChromeOSVMRange na = IPPrefix (na_IPv4 na 100 115 92 0) 23"

definition CGNATRange :: "'ip netaddr \<Rightarrow> 'ip ipprefix" where
  "CGNATRange na = IPPrefix (na_IPv4 na 100 64 0 0) 10"

definition TailscaleServiceIP :: "'ip netaddr \<Rightarrow> 'ip" where
  "TailscaleServiceIP na = na_IPv4 na 100 100 100 100"

definition TailscaleULARange :: "'ip netaddr \<Rightarrow> 'ip ipprefix" where
  "TailscaleULARange na =
     IPPrefix (na_IPFrom16 na ([0xfd, 0x7a, 0x11, 0x5c, 0xa1, 0xe0] @ replicate 10 0)) 48"

definition IsTailscaleIP :: "'ip netaddr \<Rightarrow> 'ip \<Rightarrow> bool" where
  "IsTailscaleIP na ip =
     (if na_Is4 na ip then na_Contains na (CGNATRange na) ip \<and> \<not> na_Contains na (ChromeOSVMRange na) ip
      else na_Contains na (TailscaleULARange na) ip)"

definition Tailscale4To6Range :: "'ip netaddr \<Rightarrow> 'ip ipprefix" where
  "Tailscale4To6Range na =
     IPPrefix (na_IPFrom16 na
       [0xfd, 0x7a, 0x11, 0x5c, 0xa1, 0xe0, 0xab, 0x12, 0x48, 0x43, 0xcd, 0x96, 0x62, 0, 0, 0]) 104"

definition TailscaleEphemeral6Range :: "'ip netaddr \<Rightarrow> 'ip ipprefix" where
  "TailscaleEphemeral6Range na =
     IPPrefix (na_IPFrom16 na ([0xfd, 0x7a, 0x11, 0x5c, 0xa1, 0xe0, 0xef, 0xe3] @ replicate 8 0)) 64"

definition Tailscale4To6Placeholder :: "'ip netaddr \<Rightarrow> 'ip" where
  "Tailscale4To6Placeholder na = pfx_IP (Tailscale4To6Range na)"

definition Tailscale4To6 :: "'ip netaddr \<Rightarrow> 'ip \<Rightarrow> 'ip option" where
  "Tailscale4To6 na ipv4 =
     (if \<not> na_Is4 na ipv4 \<or> \<not> IsTailscaleIP na ipv4 then Some (na_zero na)
      else do { let ret = na_As16 na (pfx_IP (Tailscale4To6Range na));
                v4 \<leftarrow> na_As4 na ipv4;
                src \<leftarrow> slice_from v4 1;
                ret \<leftarrow> copy_at ret 13 (length ret) src;
                Some (na_IPFrom16 na ret) })"

text \<open>The loops of \<^verbatim>\<open>NewContainsIPFunc\<close>: the linear scan, and the map of its general case.\<close>

fun contains_scan :: "'ip netaddr \<Rightarrow> 'ip ipprefix list \<Rightarrow> 'ip \<Rightarrow> bool" where
  "contains_scan na [] ip = False"
| "contains_scan na (a # as) ip = (if na_Contains na a ip then True else contains_scan na as ip)"

fun all_single :: "'ip netaddr \<Rightarrow> 'ip ipprefix list \<Rightarrow> bool" where
  "all_single na [] = True"
| "all_single na (a # as) = (if na_IsSingleIP na a then all_single na as else False)"

fun ip_map :: "('ip \<Rightarrow> bool) \<Rightarrow> 'ip ipprefix list \<Rightarrow> 'ip \<Rightarrow> bool" where
  "ip_map m [] = m"
| "ip_map m (a # as) = ip_map (m(pfx_IP a := True)) as"

definition NewContainsIPFunc :: "'ip netaddr \<Rightarrow> 'ip ipprefix list \<Rightarrow> 'ip \<Rightarrow> bool" where
  "NewContainsIPFunc na addrs =
     (if length addrs = 0 then (\<lambda>ip. False)
      else if \<not> all_single na addrs then contains_scan na addrs
      else if length addrs = 1 then (\<lambda>ip. ip = pfx_IP (addrs ! 0))
      else if length addrs = 2 then (\<lambda>ip. ip = pfx_IP (addrs ! 0) \<or> ip = pfx_IP (addrs ! 1))
      else ip_map (\<lambda>_. False) addrs)"

section \<open>Properties\<close>

lemma contains_scan_iff: "contains_scan na as ip \<longleftrightarrow> (\<exists>a \<in> set as. na_Contains na a ip)"
  by (induction as) auto

lemma all_single_iff: "all_single na as \<longleftrightarrow> (\<forall>a \<in> set as. na_IsSingleIP na a)"
  by (induction as) auto

lemma ip_map_iff: "ip_map m as ip \<longleftrightarrow> m ip \<or> (\<exists>a \<in> set as. ip = pfx_IP a)"
  by (induction as arbitrary: m) auto

text \<open>
  C27. The fast paths of \<^verbatim>\<open>NewContainsIPFunc\<close> agree with the plain definition: the function it returns tells,
  for every address, whether one of the prefixes contains it.
\<close>

theorem NewContainsIPFunc_correct:
  assumes "prefix_laws na" and "\<forall>a \<in> set addrs. plain_ip na (pfx_IP a)"
  shows "NewContainsIPFunc na addrs ip \<longleftrightarrow> (\<exists>a \<in> set addrs. na_Contains na a ip)"
proof (cases "all_single na addrs")
  case False
  then show ?thesis by (auto simp: NewContainsIPFunc_def contains_scan_iff)
next
  case True
  then have s: "na_Contains na a ip = (ip = pfx_IP a)" if "a \<in> set addrs" for a
    using that assms by (auto simp: prefix_laws_def all_single_iff)
  have two: "length addrs = 2 \<Longrightarrow> \<exists>a b. addrs = [a, b]"
    by (auto simp: numeral_2_eq_2 length_Suc_conv)
  show ?thesis
    using True two s by (auto simp: NewContainsIPFunc_def ip_map_iff length_Suc_conv)
qed

theorem NewContainsIPFunc_correct_witness:
  "NewContainsIPFunc addr_netaddr [IPPrefix (V4 100 64 0 1) 32, IPPrefix (V6 0xfd7a115c 0xa1e00000 0 1 []) 128] (V4 100 64 0 1) \<and>
   \<not> NewContainsIPFunc addr_netaddr [IPPrefix (V4 100 64 0 1) 32, IPPrefix (V6 0xfd7a115c 0xa1e00000 0 1 []) 128] (V4 100 64 0 2)"
proof -
  let ?as = "[IPPrefix (V4 100 64 0 1) 32, IPPrefix (V6 0xfd7a115c 0xa1e00000 0 1 []) 128]"
  have p: "\<forall>a \<in> set ?as. plain_ip addr_netaddr (pfx_IP a)" by (simp add: plain_ip_def)
  have "addr_contains (?as ! 0) (V4 100 64 0 1)" "\<not> addr_contains (?as ! 0) (V4 100 64 0 2)"
    "\<not> addr_contains (?as ! 1) (V4 100 64 0 2)" by code_simp+
  then show ?thesis by (simp add: NewContainsIPFunc_correct [OF prefix_laws_addr p])
qed

text \<open>The first byte of every Tailscale IPv4 address is 100.\<close>

lemma drop_bit_be32_first:
  assumes "drop_bit 22 (be32 100 64 0 0) = drop_bit 22 (be32 a b c d)"
  shows "a = 100"
proof -
  have "byte32 3 x = ucast (drop_bit 2 (drop_bit 22 x))" for x :: u32
    by (simp add: byte32_def)
  then have "byte32 3 (be32 a b c d) = byte32 3 (be32 100 64 0 0)"
    by (simp only: assms)
  then show ?thesis by simp
qed

lemma Tailscale_v4:
  assumes "netaddr_laws na" "prefix_laws na" "na_Is4 na i" "IsTailscaleIP na i"
  obtains b c d where "i = na_IPv4 na 100 b c d"
proof -
  obtain a b c d where i: "i = na_IPv4 na a b c d" using Is4E [OF assms(1,3)] .
  have "unat (10 :: u8) = 10" by simp
  moreover have "na_Contains na (CGNATRange na) i" using assms(3,4) by (simp add: IsTailscaleIP_def)
  ultimately have "drop_bit 22 (be32 100 64 0 0) = drop_bit 22 (be32 a b c d)"
    using assms(2) unfolding prefix_laws_def CGNATRange_def i by auto
  then show thesis using drop_bit_be32_first i that by blast
qed

text \<open>
  C34. \<^verbatim>\<open>Tailscale4To6\<close> is one to one: although it copies only the last three bytes of the IPv4 address, two
  different Tailscale IPv4 addresses have different IPv6 addresses; it never panics, and it gives an IPv6
  address for them.
\<close>

theorem Tailscale4To6_injective:
  assumes laws: "netaddr_laws na" "prefix_laws na"
    and i: "na_Is4 na i" "IsTailscaleIP na i" and j: "na_Is4 na j" "IsTailscaleIP na j"
  shows "Tailscale4To6 na i \<noteq> None \<and> na_Is6 na (the (Tailscale4To6 na i)) \<and>
    (Tailscale4To6 na i = Tailscale4To6 na j \<longleftrightarrow> i = j)"
proof -
  let ?pre = "[0xfd, 0x7a, 0x11, 0x5c, 0xa1, 0xe0, 0xab, 0x12, 0x48, 0x43, 0xcd, 0x96, 0x62] :: bytes"
  have f16: "na_Is6 na (na_IPFrom16 na b) \<and> na_As16 na (na_IPFrom16 na b) = b"
    if "length b = 16" "hd b = 0xfd" for b
  proof -
    have "take 12 b \<noteq> replicate 10 0 @ [255, 255]"
    proof
      assume "take 12 b = replicate 10 0 @ [255, 255]"
      then have "hd (take 12 b) = 0" by simp
      then show False using that by (cases b) simp_all
    qed
    then show ?thesis using laws(2) that by (simp add: prefix_laws_def)
  qed
  have eq: "Tailscale4To6 na (na_IPv4 na 100 b c d) = Some (na_IPFrom16 na (?pre @ [b, c, d]))"
    if "IsTailscaleIP na (na_IPv4 na 100 b c d)" for b c d
    using that laws f16 [of "?pre @ [0, 0, 0]"]
    by (simp add: Tailscale4To6_def Is4_IPv4 As4_IPv4 Tailscale4To6Range_def slice_from_def copy_at_def overwrite_eq)
  obtain b c d b' c' d' where ij: "i = na_IPv4 na 100 b c d" "j = na_IPv4 na 100 b' c' d'"
    using Tailscale_v4 [OF laws i] Tailscale_v4 [OF laws j] by metis
  have "na_IPFrom16 na (?pre @ [b, c, d]) = na_IPFrom16 na (?pre @ [b', c', d']) \<longleftrightarrow> i = j"
  proof
    assume "na_IPFrom16 na (?pre @ [b, c, d]) = na_IPFrom16 na (?pre @ [b', c', d'])"
    then have "na_As16 na (na_IPFrom16 na (?pre @ [b, c, d])) = na_As16 na (na_IPFrom16 na (?pre @ [b', c', d']))"
      by (rule arg_cong)
    then have "?pre @ [b, c, d] = ?pre @ [b', c', d']"
      using f16 [of "?pre @ [b, c, d]"] f16 [of "?pre @ [b', c', d']"] by simp
    then show "i = j" by (simp add: ij)
  next
    assume "i = j"
    then have "na_As4 na i = na_As4 na j" by simp
    then show "na_IPFrom16 na (?pre @ [b, c, d]) = na_IPFrom16 na (?pre @ [b', c', d'])"
      by (simp add: ij As4_IPv4 [OF laws(1)])
  qed
  then show ?thesis
    using i(2) j(2) f16 [of "?pre @ [b, c, d]"] unfolding ij by (simp add: eq)
qed

theorem Tailscale4To6_injective_witness:
  "Tailscale4To6 addr_netaddr (V4 100 64 0 1) \<noteq> None \<and>
   Tailscale4To6 addr_netaddr (V4 100 64 0 1) \<noteq> Tailscale4To6 addr_netaddr (V4 100 64 0 2)"
proof -
  have "IsTailscaleIP addr_netaddr (V4 100 64 0 1)" "IsTailscaleIP addr_netaddr (V4 100 64 0 2)" by code_simp+
  from Tailscale4To6_injective [OF netaddr_laws_addr prefix_laws_addr _ this(1) _ this(2)] show ?thesis by simp
qed

end
