(* ===== verification/Dnsname.thy ===== *)
theory Dnsname
  imports Gostrings
begin

text \<open>
  DNS names, \<^verbatim>\<open>util/dnsname/dnsname.go\<close>: fully qualified names and the conversion of host names into
  valid labels. The error values carry the string of the error text.
\<close>

section \<open>Fully qualified names\<close>

definition maxLabelLength :: nat where "maxLabelLength = 63"
definition maxNameLength :: nat where "maxNameLength = 253"

type_synonym fqdn = string

datatype dns_error = ErrNameTooLong string | ErrInvalidLabel string

text \<open>The loop of \<^verbatim>\<open>ToFQDN\<close> over \<open>s\<close>, from index \<open>i\<close>, with the start \<open>st\<close> of the current label. It
  returns the first bad label.\<close>

function bad_label :: "string \<Rightarrow> nat \<Rightarrow> nat \<Rightarrow> string option" where
  "bad_label s st i =
     (if i < length s
      then if s ! i \<noteq> CHR ''.'' then bad_label s st (Suc i)
           else let label = take (i - st) (drop st s)
                in if length label = 0 \<or> length label > maxLabelLength then Some label
                   else bad_label s (Suc i) (Suc i)
      else None)"
  by auto
termination by (relation "measure (\<lambda>(s, st, i). length s - i)") auto

declare bad_label.simps [simp del]

definition ToFQDN :: "string \<Rightarrow> dns_error + fqdn" where
  "ToFQDN s =
     (if length s = 0 \<or> s = ''.'' then Inr ''.''
      else let s = (if s ! 0 = CHR ''.'' then drop 1 s else s);
               raw = s;
               dot = (s ! (length s - 1) = CHR ''.'');
               totalLen = (if dot then length s else length s + 1);
               s = (if dot then take (length s - 1) s else s)
           in if totalLen > maxNameLength then Inl (ErrNameTooLong s)
              else case bad_label s 0 0 of
                     Some label \<Rightarrow> Inl (ErrInvalidLabel label)
                   | None \<Rightarrow> Inr (if raw ! (length raw - 1) \<noteq> CHR ''.'' then raw @ ''.'' else raw))"

definition WithTrailingDot :: "fqdn \<Rightarrow> string" where
  "WithTrailingDot f = f"

text \<open>\<^verbatim>\<open>f[:len(f)-1]\<close> panics on the empty name.\<close>

definition WithoutTrailingDot :: "fqdn \<Rightarrow> string option" where
  "WithoutTrailingDot f = (if f = [] then None else Some (take (length f - 1) f))"

definition FQDN_NumLabels :: "fqdn \<Rightarrow> nat" where
  "FQDN_NumLabels f = (if f = ''.'' then 0 else str_count (WithTrailingDot f) (CHR ''.''))"

definition FQDN_Contains :: "fqdn \<Rightarrow> fqdn \<Rightarrow> bool" where
  "FQDN_Contains f other =
     (if f = other then True
      else let cmp = WithTrailingDot f;
               cmp = (if cmp \<noteq> ''.'' then ''.'' @ cmp else cmp)
           in has_suffix (WithTrailingDot other) cmp)"

section \<open>Labels from host names\<close>

definition separators :: "char \<Rightarrow> bool" where
  "separators c \<longleftrightarrow> c = CHR '' '' \<or> c = CHR ''.'' \<or> c = CHR ''@'' \<or> c = CHR ''_''"

definition isalpha :: "char \<Rightarrow> bool" where
  "isalpha c \<longleftrightarrow> islower c \<or> isupper c"

definition isalphanum :: "char \<Rightarrow> bool" where
  "isalphanum c \<longleftrightarrow> isalpha c \<or> isdigit c"

definition isdnschar :: "char \<Rightarrow> bool" where
  "isdnschar c \<longleftrightarrow> isalphanum c \<or> c = CHR ''-''"

text \<open>The three loops of \<^verbatim>\<open>SanitizeLabel\<close>: the new start, the new end, and the output.\<close>

function label_start :: "string \<Rightarrow> nat \<Rightarrow> nat \<Rightarrow> nat" where
  "label_start l start fin =
     (if start < fin then (if isalphanum (l ! start) then start else label_start l (Suc start) fin) else start)"
  by auto
termination by (relation "measure (\<lambda>(l, start, fin). fin - start)") auto

declare label_start.simps [simp del]

fun label_end :: "string \<Rightarrow> nat \<Rightarrow> nat \<Rightarrow> nat" where
  "label_end l start 0 = 0"
| "label_end l start (Suc n) =
     (if start < Suc n then (if isalphanum (l ! n) then Suc n else label_end l start n) else Suc n)"

function label_body :: "string \<Rightarrow> nat \<Rightarrow> nat \<Rightarrow> nat \<Rightarrow> string \<Rightarrow> string" where
  "label_body l start fin i sb =
     (if i < fin
      then let boundary = (i = start \<or> i = fin - 1)
           in label_body l start fin (Suc i)
                (if \<not> boundary \<and> separators (l ! i) then sb @ ''-''
                 else if isdnschar (l ! i) then sb @ [tolower (l ! i)] else sb)
      else sb)"
  by auto
termination by (relation "measure (\<lambda>(l, start, fin, i, sb). fin - i)") auto

declare label_body.simps [simp del]

definition SanitizeLabel :: "string \<Rightarrow> string" where
  "SanitizeLabel label =
     (let fin = length label;
          fin = (if fin > maxLabelLength then maxLabelLength else fin);
          start = label_start label 0 fin;
          fin = label_end label start fin
      in label_body label start fin start [])"

definition HasSuffix :: "string \<Rightarrow> string \<Rightarrow> bool" where
  "HasSuffix name sfx =
     (let name = trim_suffix name ''.'';
          sfx = trim_suffix sfx ''.'';
          sfx = trim_prefix sfx ''.'';
          nameBase = trim_suffix name sfx
      in length nameBase < length name \<and> has_suffix nameBase ''.'')"

definition TrimSuffix :: "string \<Rightarrow> string \<Rightarrow> string" where
  "TrimSuffix name sfx =
     (let name = (if HasSuffix name sfx
                  then trim_suffix (trim_suffix name ''.'') (trim_char sfx (CHR ''.''))
                  else name)
      in trim_suffix name ''.'')"

definition TrimCommonSuffixes :: "string \<Rightarrow> string" where
  "TrimCommonSuffixes hostname =
     (let hostname = trim_suffix hostname ''.local'';
          hostname = trim_suffix hostname ''.localdomain'';
          hostname = trim_suffix hostname ''.lan''
      in hostname)"

definition SanitizeHostname :: "string \<Rightarrow> string" where
  "SanitizeHostname hostname = SanitizeLabel (TrimCommonSuffixes hostname)"

definition NumLabels :: "string \<Rightarrow> nat" where
  "NumLabels hostname = (if hostname = [] \<or> hostname = ''.'' then 0 else str_count hostname (CHR ''.''))"

definition FirstLabel :: "string \<Rightarrow> string" where
  "FirstLabel hostname = (if str_contains hostname (CHR ''.'') then fst (str_cut hostname (CHR ''.'')) else hostname)"

section \<open>Sanitized labels\<close>

text \<open>A label that \<^verbatim>\<open>SanitizeLabel\<close> may return: at most 63 lower-case letters, digits and hyphens, with no
  hyphen at either end.\<close>

definition label_char :: "char \<Rightarrow> bool" where
  "label_char c \<longleftrightarrow> islower c \<or> isdigit c"

definition sane_label :: "string \<Rightarrow> bool" where
  "sane_label l \<longleftrightarrow> length l \<le> 63 \<and> (\<forall>c \<in> set l. label_char c \<or> c = CHR ''-'') \<and>
     (l \<noteq> [] \<longrightarrow> label_char (hd l) \<and> label_char (last l))"

lemma label_char_tolower [simp]: "isalphanum c \<Longrightarrow> label_char (tolower c)"
  by (cases "isupper c") (auto simp: isalphanum_def isalpha_def label_char_def)

lemma isdnschar_tolower: "isdnschar c \<Longrightarrow> label_char (tolower c) \<or> tolower c = CHR ''-''"
  by (auto simp: isdnschar_def) (simp add: tolower_def isupper_def less_eq_char_def)

lemma label_char_simps: "label_char c \<Longrightarrow> isalphanum c \<and> tolower c = c \<and> isdnschar c \<and> \<not> separators c"
  by (auto simp: label_char_def isalphanum_def isalpha_def isdnschar_def separators_def lower_not_upper digit_not_upper)
    (simp_all add: islower_def isdigit_def less_eq_char_def)

lemma label_start_props:
  "s \<le> e \<Longrightarrow> s \<le> label_start l s e \<and> label_start l s e \<le> e \<and>
   (label_start l s e < e \<longrightarrow> isalphanum (l ! label_start l s e)) \<and>
   (\<forall>k. s \<le> k \<and> k < label_start l s e \<longrightarrow> \<not> isalphanum (l ! k))"
proof (induction l s e rule: label_start.induct)
  case (1 l s e)
  show ?case
  proof (cases "s < e \<and> \<not> isalphanum (l ! s)")
    case True
    then have eq: "label_start l s e = label_start l (Suc s) e" by (subst label_start.simps) simp
    have "\<not> isalphanum (l ! k)" if "s \<le> k" "k < label_start l (Suc s) e" for k
      using True 1 that by (cases "k = s") auto
    with True 1 show ?thesis unfolding eq by auto
  next
    case False
    then have eq: "label_start l s e = s" by (subst label_start.simps) auto
    from False 1 show ?thesis unfolding eq by auto
  qed
qed

lemma label_end_props:
  "s \<le> e \<Longrightarrow> s \<le> label_end l s e \<and> label_end l s e \<le> e \<and>
   (s < label_end l s e \<longrightarrow> isalphanum (l ! (label_end l s e - 1))) \<and>
   (\<forall>k. label_end l s e \<le> k \<and> k < e \<longrightarrow> \<not> isalphanum (l ! k))"
  by (induction l s e rule: label_end.induct) (auto simp: less_Suc_eq le_Suc_eq)

text \<open>What the output loop writes for the character at position \<open>i\<close>.\<close>

definition label_out :: "string \<Rightarrow> nat \<Rightarrow> nat \<Rightarrow> nat \<Rightarrow> string" where
  "label_out l start fin i =
     (if \<not> (i = start \<or> i = fin - 1) \<and> separators (l ! i) then ''-''
      else if isdnschar (l ! i) then [tolower (l ! i)] else [])"

lemma label_body_step:
  "label_body l s e i sb = (if i < e then label_body l s e (Suc i) (sb @ label_out l s e i) else sb)"
  by (subst label_body.simps) (simp add: label_out_def)

lemma label_body_eq: "label_body l s e i sb = sb @ concat (map (label_out l s e) [i..<e])"
proof (induction "e - i" arbitrary: i sb)
  case 0
  then show ?case by (subst label_body_step) simp
next
  case (Suc n)
  then have "[i..<e] = i # [Suc i..<e]" "i < e" by (auto simp: upt_conv_Cons)
  moreover have "label_body l s e (Suc i) sb' = sb' @ concat (map (label_out l s e) [Suc i..<e])" for sb'
    using Suc by auto
  ultimately show ?case by (subst label_body_step) simp
qed

lemma label_out_length: "length (concat (map (label_out l s e) is)) \<le> length is"
  by (induction "is") (auto simp: label_out_def)

lemma label_out_chars: "c \<in> set (label_out l s e i) \<Longrightarrow> label_char c \<or> c = CHR ''-''"
  by (auto simp: label_out_def isdnschar_tolower split: if_splits)

lemma label_out_edge: "isalphanum (l ! i) \<Longrightarrow> i = s \<or> i = e - 1 \<Longrightarrow> label_out l s e i = [tolower (l ! i)]"
  by (auto simp: label_out_def isdnschar_def)

lemma SanitizeLabel_parts:
  obtains s e where "s \<le> e" "e \<le> length l" "e \<le> 63" "SanitizeLabel l = concat (map (label_out l s e) [s..<e])"
    "s < e \<Longrightarrow> isalphanum (l ! s) \<and> isalphanum (l ! (e - 1))"
    "\<And>k. k < min (length l) 63 \<Longrightarrow> isalphanum (l ! k) \<Longrightarrow> s \<le> k \<and> k < e"
proof -
  let ?f = "min (length l) 63"
  let ?s = "label_start l 0 ?f"
  let ?e = "label_end l ?s ?f"
  have f: "(if length l > maxLabelLength then maxLabelLength else length l) = ?f"
    by (simp add: maxLabelLength_def min_def)
  note s = label_start_props [of 0 ?f l, simplified]
  then have e: "?s \<le> ?e \<and> ?e \<le> ?f \<and> (?s < ?e \<longrightarrow> isalphanum (l ! (?e - 1))) \<and>
      (\<forall>k. ?e \<le> k \<and> k < ?f \<longrightarrow> \<not> isalphanum (l ! k))"
    by (intro label_end_props) simp
  have "SanitizeLabel l = concat (map (label_out l ?s ?e) [?s..<?e])"
    by (simp only: SanitizeLabel_def Let_def f label_body_eq append_Nil)
  with s e show thesis by (intro that [of ?s ?e]) (auto simp: not_le not_less)
qed

lemma sane_SanitizeLabel: "sane_label (SanitizeLabel l)"
proof -
  obtain s e where p: "s \<le> e" "e \<le> length l" "e \<le> 63" and eq: "SanitizeLabel l = concat (map (label_out l s e) [s..<e])"
    and se: "s < e \<Longrightarrow> isalphanum (l ! s) \<and> isalphanum (l ! (e - 1))"
    and a: "\<And>k. k < min (length l) 63 \<Longrightarrow> isalphanum (l ! k) \<Longrightarrow> s \<le> k \<and> k < e"
    by (rule SanitizeLabel_parts [of l], rule that)
  have len: "length (SanitizeLabel l) \<le> 63"
    unfolding eq using label_out_length [of l s e "[s..<e]"] p by simp
  have hd_last: "label_char (hd (SanitizeLabel l)) \<and> label_char (last (SanitizeLabel l))" if "s < e"
  proof -
    have "[s..<e] = s # [Suc s..<e]" using that by (simp add: upt_conv_Cons)
    then have 1: "SanitizeLabel l = tolower (l ! s) # concat (map (label_out l s e) [Suc s..<e])"
      unfolding eq using se [OF that] label_out_edge [of l s s e] by simp
    have "[s..<e] = [s..<e - 1] @ [e - 1]" using that by (simp flip: upt_Suc_append)
    then have "SanitizeLabel l = concat (map (label_out l s e) [s..<e - 1]) @ [tolower (l ! (e - 1))]"
      unfolding eq using se [OF that] label_out_edge [of l "e - 1" s e] by simp
    with 1 se [OF that] show ?thesis by (metis label_char_tolower last_snoc list.sel(1))
  qed
  have "s < e" if "SanitizeLabel l \<noteq> []" using that unfolding eq by (cases "s < e") auto
  with len hd_last label_out_chars show ?thesis unfolding sane_label_def eq by (auto simp: eq)
qed

lemma SanitizeLabel_sane: "sane_label l \<Longrightarrow> SanitizeLabel l = l"
proof (cases "l = []")
  case True
  then show ?thesis by (simp add: SanitizeLabel_def label_start.simps label_body.simps)
next
  case False
  assume l: "sane_label l"
  obtain s e where p: "s \<le> e" "e \<le> length l" "e \<le> 63" and eq: "SanitizeLabel l = concat (map (label_out l s e) [s..<e])"
    and se: "s < e \<Longrightarrow> isalphanum (l ! s) \<and> isalphanum (l ! (e - 1))"
    and a: "\<And>k. k < min (length l) 63 \<Longrightarrow> isalphanum (l ! k) \<Longrightarrow> s \<le> k \<and> k < e"
    by (rule SanitizeLabel_parts [of l], rule that)
  have "isalphanum (l ! 0)" "isalphanum (l ! (length l - 1))"
    using l False by (auto simp: sane_label_def label_char_simps hd_conv_nth last_conv_nth)
  moreover have "0 < min (length l) 63" "length l - 1 < min (length l) 63" using l False by (auto simp: sane_label_def)
  ultimately have "s \<le> 0" "length l - 1 < e" using a [of 0] a [of "length l - 1"] by auto
  then have s0: "s = 0" "e = length l" using p by auto
  have "label_out l 0 (length l) i = [l ! i]" if i: "i < length l" for i
  proof -
    from l consider "label_char (l ! i)" | "l ! i = CHR ''-''" using nth_mem [OF i] by (auto simp: sane_label_def)
    then show ?thesis
    proof cases
      case 1
      then show ?thesis by (simp add: label_out_def label_char_simps)
    next
      case 2
      then show ?thesis
        by (simp add: label_out_def isdnschar_def separators_def tolower_def isupper_def less_eq_char_def)
    qed
  qed
  then have "map (label_out l 0 (length l)) [0..<length l] = map (\<lambda>i. [l ! i]) [0..<length l]"
    by (intro map_cong) auto
  moreover have "concat (map (\<lambda>i. [l ! i]) is) = map ((!) l) is" for "is" by (induction "is") auto
  ultimately show ?thesis unfolding eq s0 by (simp only: map_nth)
qed

text \<open>
  C31. \<^verbatim>\<open>SanitizeLabel\<close> turns any string into a valid DNS label or the empty string: at most 63 lower-case
  letters, digits and hyphens, with a letter or digit at both ends. It leaves valid labels alone, so it is
  idempotent, and it returns the empty string only if there is no letter or digit among the first 63 bytes.
\<close>

theorem SanitizeLabel_valid:
  "sane_label (SanitizeLabel l) \<and> (sane_label l \<longleftrightarrow> SanitizeLabel l = l) \<and>
   SanitizeLabel (SanitizeLabel l) = SanitizeLabel l \<and>
   (SanitizeLabel l = [] \<longleftrightarrow> list_all (\<lambda>c. \<not> isalphanum c) (take 63 l))"
proof (intro conjI)
  show "sane_label (SanitizeLabel l)" by (rule sane_SanitizeLabel)
  then show "SanitizeLabel (SanitizeLabel l) = SanitizeLabel l" by (rule SanitizeLabel_sane)
  show "sane_label l \<longleftrightarrow> SanitizeLabel l = l" using SanitizeLabel_sane sane_SanitizeLabel [of l] by auto
  obtain s e where p: "s \<le> e" "e \<le> length l" "e \<le> 63" and eq: "SanitizeLabel l = concat (map (label_out l s e) [s..<e])"
    and se: "s < e \<Longrightarrow> isalphanum (l ! s) \<and> isalphanum (l ! (e - 1))"
    and a: "\<And>k. k < min (length l) 63 \<Longrightarrow> isalphanum (l ! k) \<Longrightarrow> s \<le> k \<and> k < e"
    by (rule SanitizeLabel_parts [of l], rule that)
  show "SanitizeLabel l = [] \<longleftrightarrow> list_all (\<lambda>c. \<not> isalphanum c) (take 63 l)"
  proof (cases "s < e")
    case True
    then have "label_out l s e s \<noteq> []" using se label_out_edge [of l s s e] by simp
    with True have "SanitizeLabel l \<noteq> []" unfolding eq by (simp add: upt_conv_Cons)
    moreover have "isalphanum (take 63 l ! s)" "s < length (take 63 l)" using True p se by auto
    ultimately show ?thesis by (auto simp: list_all_length)
  next
    case False
    then have "\<not> isalphanum (l ! k)" if "k < min (length l) 63" for k using a [OF that] by auto
    with False show ?thesis unfolding eq by (auto simp: list_all_length)
  qed
qed

section \<open>Properties of fully qualified names\<close>

text \<open>The labels of a name that ends in a dot, and the labels that \<^verbatim>\<open>ToFQDN\<close> refuses.\<close>

definition labels :: "fqdn \<Rightarrow> string list" where
  "labels f = (if f = ''.'' then [] else butlast (split_on (CHR ''.'') f))"

definition refused :: "string \<Rightarrow> bool" where
  "refused l \<longleftrightarrow> length l = 0 \<or> length l > maxLabelLength"

lemma bad_label_eq:
  "st \<le> i \<Longrightarrow> i \<le> length s \<Longrightarrow> CHR ''.'' \<notin> set (take (i - st) (drop st s)) \<Longrightarrow>
   bad_label s st i = List.find refused (butlast (split_on (CHR ''.'') (drop st s)))"
proof (induction s st i rule: bad_label.induct)
  case (1 s st i)
  show ?case
  proof (cases "i < length s")
    case False
    with "1.prems" show ?thesis by (subst bad_label.simps) simp
  next
    case True
    have cut: "take (Suc i - st) (drop st s) = take (i - st) (drop st s) @ [s ! i]"
      using True "1.prems"(1) by (simp add: Suc_diff_le take_Suc_conv_app_nth)
    show ?thesis
    proof (cases "s ! i = CHR ''.''")
      case False
      then have "bad_label s st i = bad_label s st (Suc i)" using True by (subst bad_label.simps) simp
      with True False "1.IH"(1) "1.prems" cut show ?thesis by auto
    next
      case dot: True
      have "drop st s = take (i - st) (drop st s) @ CHR ''.'' # drop (Suc i) s"
        using True "1.prems"(1) dot by (metis append_take_drop_id Cons_nth_drop_Suc drop_drop le_add_diff_inverse2)
      then have sp: "split_on (CHR ''.'') (drop st s) = take (i - st) (drop st s) # split_on (CHR ''.'') (drop (Suc i) s)"
        using "1.prems"(3) by (metis split_on_append_sep)
      show ?thesis
        using True dot "1.IH"(2) [OF True] unfolding sp
        by (subst bad_label.simps) (simp add: refused_def [of "take (i - st) (drop st s)"] Let_def)
    qed
  qed
qed

lemma split_on_dot_end: "split_on c (s @ [c]) = split_on c s @ [[]]"
  by (induction s) (auto split: list.split)

text \<open>A name other than the root that \<^verbatim>\<open>ToFQDN\<close> returns is a string and a final dot.\<close>

definition fqdn_ok :: "string \<Rightarrow> bool" where
  "fqdn_ok b \<longleftrightarrow> b \<noteq> [] \<and> length b < maxNameLength \<and> List.find refused (butlast (split_on (CHR ''.'') b)) = None"

lemma fqdn_ok_hd: "fqdn_ok b \<Longrightarrow> b ! 0 \<noteq> CHR ''.''"
  by (cases b) (auto simp: fqdn_ok_def refused_def)

lemma ToFQDN_ok: "fqdn_ok b \<Longrightarrow> ToFQDN (b @ ''.'') = Inr (b @ ''.'')"
  using fqdn_ok_hd [of b]
  by (auto simp: ToFQDN_def Let_def fqdn_ok_def nth_append bad_label_eq)

lemma ToFQDN_cases:
  assumes "ToFQDN s = Inr f"
  shows "f = ''.'' \<or> (\<exists>b. f = b @ ''.'' \<and> fqdn_ok b)"
proof (cases "length s = 0 \<or> s = ''.''")
  case True
  then show ?thesis using assms by (auto simp: ToFQDN_def)
next
  case False
  define raw where "raw = (if s ! 0 = CHR ''.'' then drop 1 s else s)"
  have ne: "raw \<noteq> []" using False by (cases s) (auto simp: raw_def)
  define b where "b = (if last raw = CHR ''.'' then butlast raw else raw)"
  have raw: "(if raw ! (length raw - 1) \<noteq> CHR ''.'' then raw @ ''.'' else raw) = b @ ''.''"
    using append_butlast_last_id [OF ne] last_conv_nth [OF ne] by (auto simp: b_def)
  have tot: "(if raw ! (length raw - 1) = CHR ''.'' then length raw else length raw + 1) = length b + 1"
    using ne by (simp add: b_def last_conv_nth)
  have b: "(if raw ! (length raw - 1) = CHR ''.'' then take (length raw - 1) raw else raw) = b"
    using ne by (simp add: b_def last_conv_nth butlast_conv_take)
  have "(if length b + 1 > maxNameLength then Inl (ErrNameTooLong b)
      else case bad_label b 0 0 of Some label \<Rightarrow> Inl (ErrInvalidLabel label) | None \<Rightarrow> Inr (b @ ''.'')) = Inr f"
    using assms False unfolding ToFQDN_def Let_def raw_def [symmetric] raw tot b by simp
  then have "length b < maxNameLength" "bad_label b 0 0 = None" "f = b @ ''.''"
    by (auto split: if_splits option.splits)
  then show ?thesis by (auto simp: fqdn_ok_def bad_label_eq)
qed

text \<open>
  C32. \<^verbatim>\<open>ToFQDN\<close> is a normal form: a name it returns ends in a dot, has at most 253 bytes, is returned
  unchanged when converted again, and every label except possibly the last has between 1 and 63 bytes.
\<close>

theorem ToFQDN_normal:
  assumes "ToFQDN s = Inr f"
  shows "last f = CHR ''.'' \<and> length f \<le> 253 \<and> ToFQDN f = Inr f \<and>
    (\<forall>l \<in> set (butlast (labels f)). 1 \<le> length l \<and> length l \<le> 63)"
  using ToFQDN_cases [OF assms]
proof (elim disjE exE conjE)
  assume "f = ''.''"
  then show ?thesis by (simp add: ToFQDN_def labels_def)
next
  fix b assume f: "f = b @ ''.''" and b: "fqdn_ok b"
  then have "labels f = split_on (CHR ''.'') b"
    by (auto simp: labels_def split_on_dot_end fqdn_ok_def)
  then have "\<forall>l \<in> set (butlast (labels f)). \<not> refused l"
    using b by (auto simp: fqdn_ok_def find_None_iff)
  then have "\<forall>l \<in> set (butlast (labels f)). 1 \<le> length l \<and> length l \<le> 63"
    by (auto simp: refused_def maxLabelLength_def Suc_le_eq)
  then show ?thesis using f b ToFQDN_ok [OF b] by (simp add: fqdn_ok_def maxNameLength_def)
qed

theorem ToFQDN_normal_witness:
  "ToFQDN ''www.Example.com'' = Inr ''www.Example.com.'' \<and> ToFQDN ''www.Example.com.'' = Inr ''www.Example.com.''"
proof -
  have "ToFQDN ''www.Example.com'' = Inr ''www.Example.com.''" by code_simp
  with ToFQDN_normal [OF this] show ?thesis by simp
qed

text \<open>The last label is not checked: it may be empty or longer than 63 bytes.\<close>

lemma ToFQDN_last_label:
  "ToFQDN (replicate 100 (CHR ''a'')) = Inr (replicate 100 (CHR ''a'') @ ''.'') \<and> ToFQDN ''a..'' = Inr ''a..''"
  by code_simp

lemma labels_append:
  "g = p @ ''.'' @ f \<Longrightarrow> f \<noteq> ''.'' \<Longrightarrow> f \<noteq> [] \<Longrightarrow> labels g = split_on (CHR ''.'') p @ labels f"
  by (auto simp: labels_def split_on_append butlast_append append_eq_Cons_conv)

lemma labels_Nil: "labels ''.'' = []"
  by (simp add: labels_def)

lemma labels_concat:
  assumes "last f = CHR ''.''" "f \<noteq> []" "f \<noteq> ''.''"
  shows "labels f \<noteq> []" "concat (map (\<lambda>l. l @ ''.'') (labels f)) = f"
proof -
  from assms obtain b where f: "f = b @ ''.''" "b \<noteq> []" by (metis append_butlast_last_id append_Nil)
  have c: "ps \<noteq> [] \<Longrightarrow> concat (map (\<lambda>l. l @ ''.'') ps) = join_with ''.'' ps @ ''.''" for ps
    by (induction "''.''" ps rule: join_with.induct) auto
  show "labels f \<noteq> []" "concat (map (\<lambda>l. l @ ''.'') (labels f)) = f"
    using f by (auto simp: labels_def split_on_dot_end c)
qed

lemma Contains_iff:
  assumes f: "last f = CHR ''.''" "f \<noteq> []" and g: "last g = CHR ''.''" "g \<noteq> []"
  shows "FQDN_Contains f g \<longleftrightarrow> suffix (labels f) (labels g)"
proof (cases "f = ''.''")
  case True
  have "suffix ''.'' g" using g by (metis append_butlast_last_id suffix_def)
  with True show ?thesis by (auto simp: FQDN_Contains_def WithTrailingDot_def labels_Nil)
next
  case fr: False
  have "FQDN_Contains f g \<longleftrightarrow> f = g \<or> suffix (''.'' @ f) g"
    using fr by (auto simp: FQDN_Contains_def WithTrailingDot_def)
  also have "\<dots> \<longleftrightarrow> suffix (labels f) (labels g)"
  proof
    assume "f = g \<or> suffix (''.'' @ f) g"
    then show "suffix (labels f) (labels g)"
      using labels_append [of g _ f] fr f by (auto simp: suffix_def)
  next
    assume "suffix (labels f) (labels g)"
    then obtain ls where ls: "labels g = ls @ labels f" by (auto simp: suffix_def)
    then have "g \<noteq> ''.''" using labels_concat(1) [OF f fr] by (auto simp: labels_def)
    then have "g = concat (map (\<lambda>l. l @ ''.'') ls) @ f"
      using labels_concat(2) [OF g] labels_concat(2) [OF f fr] ls by (metis map_append concat_append)
    then show "f = g \<or> suffix (''.'' @ f) g"
      by (cases ls rule: rev_cases) (auto simp: suffix_def)
  qed
  finally show ?thesis .
qed

text \<open>
  \<^verbatim>\<open>FQDN.Contains\<close> is containment of DNS names label by label: for converted names, \<open>f\<close> contains \<open>g\<close>
  exactly when the labels of \<open>f\<close> are the last labels of \<open>g\<close>; a name never contains one that merely ends in
  the same characters.
\<close>

theorem FQDN_Contains_labels:
  assumes "ToFQDN s = Inr f" "ToFQDN t = Inr g"
  shows "FQDN_Contains f g \<longleftrightarrow> suffix (labels f) (labels g)"
  using ToFQDN_cases [OF assms(1)] ToFQDN_cases [OF assms(2)] by (intro Contains_iff) auto

theorem FQDN_Contains_labels_witness:
  "FQDN_Contains ''ts.net.'' ''a.ts.net.'' \<and> \<not> FQDN_Contains ''s.net.'' ''a.ts.net.''"
proof -
  have "ToFQDN ''ts.net'' = Inr ''ts.net.''" "ToFQDN ''s.net'' = Inr ''s.net.''" "ToFQDN ''a.ts.net'' = Inr ''a.ts.net.''"
    by code_simp+
  note this(1,2) [THEN FQDN_Contains_labels, OF this(3)]
  moreover have "labels ''ts.net.'' = [''ts'', ''net'']" "labels ''s.net.'' = [''s'', ''net'']"
    "labels ''a.ts.net.'' = [''a'', ''ts'', ''net'']" by code_simp+
  ultimately show ?thesis by (simp add: suffix_def Cons_eq_append_conv)
qed

text \<open>\<^verbatim>\<open>TrimSuffix\<close> removes one trailing dot only.\<close>

lemma TrimSuffix_trailing_dot: "TrimSuffix ''foo..'' ''bar'' = ''foo.''"
  by code_simp

end
