(* ===== verification/Keys.thy ===== *)
theory Keys
  imports Gostrings
begin

text \<open>
  Curve25519 keys and their text forms: \<^verbatim>\<open>types/key/key.go\<close>, \<^verbatim>\<open>types/wgkey/key.go\<close> and the key types of
  \<^verbatim>\<open>tailcfg/tailcfg.go\<close>. A key, an array of 32 bytes in Go, is a list of bytes; the properties speak of
  lists of length 32. The hexadecimal and base64 encoders are those of the standard library. Key
  generation and the scalar multiplications call cryptographic code outside the repository.
\<close>

type_synonym wgkey = bytes

definition Size :: nat where "Size = 32"

definition zero_key :: wgkey where "zero_key = replicate 32 0"

datatype key_error =
    ErrKeyLength
  | ErrHexChar
  | ErrMissingPrefix string
  | ErrAfterPrefix string key_error
  | ErrInvalidHexKey string
  | ErrHexKeyLength string nat
  | ErrNilPointer
  | ErrNotAString
  | ErrJSONSize nat

section \<open>Hexadecimal and base64\<close>

definition fromHexChar :: "char \<Rightarrow> u8 option" where
  "fromHexChar c =
     (if CHR ''0'' \<le> c \<and> c \<le> CHR ''9'' then Some (of_char c - 48)
      else if CHR ''a'' \<le> c \<and> c \<le> CHR ''f'' then Some (of_char c - 97 + 10)
      else if CHR ''A'' \<le> c \<and> c \<le> CHR ''F'' then Some (of_char c - 65 + 10)
      else None)"

definition hexchar :: "nat \<Rightarrow> char" where
  "hexchar n = ''0123456789abcdef'' ! n"

definition hex_byte :: "u8 \<Rightarrow> string" where
  "hex_byte b = [hexchar (unat (drop_bit 4 b)), hexchar (unat (b AND 15))]"

definition hex_encode :: "bytes \<Rightarrow> string" where
  "hex_encode k = concat (map hex_byte k)"

text \<open>\<^verbatim>\<open>hex.Decode\<close>: the bytes decoded before the first error, and whether there was none.\<close>

fun hex_decode :: "string \<Rightarrow> bytes \<times> bool" where
  "hex_decode [] = ([], True)"
| "hex_decode [c] = ([], False)"
| "hex_decode (c # d # s) =
     (case fromHexChar c of None \<Rightarrow> ([], False)
      | Some a \<Rightarrow> (case fromHexChar d of None \<Rightarrow> ([], False)
                   | Some b \<Rightarrow> (let (r, ok) = hex_decode s in ((push_bit 4 a OR b) # r, ok))))"

definition b64char :: "nat \<Rightarrow> char" where
  "b64char n = ''ABCDEFGHIJKLMNOPQRSTUVWXYZabcdefghijklmnopqrstuvwxyz0123456789+/'' ! n"

definition b64group :: "u8 \<Rightarrow> u8 \<Rightarrow> u8 \<Rightarrow> string" where
  "b64group a b c =
     [b64char (unat (drop_bit 2 a)), b64char (unat (push_bit 4 (a AND 3) OR drop_bit 4 b)),
      b64char (unat (push_bit 2 (b AND 15) OR drop_bit 6 c)), b64char (unat (c AND 63))]"

fun b64_encode :: "bytes \<Rightarrow> string" where
  "b64_encode [] = []"
| "b64_encode [a] = take 2 (b64group a 0 0) @ ''==''"
| "b64_encode [a, b] = take 3 (b64group a b 0) @ ''=''"
| "b64_encode (a # b # c # r) = b64group a b c @ b64_encode r"

section \<open>types/key\<close>

definition Private_IsZero :: "wgkey \<Rightarrow> bool" where
  "Private_IsZero p \<longleftrightarrow> p = zero_key"

definition Public_IsZero :: "wgkey \<Rightarrow> bool" where
  "Public_IsZero p \<longleftrightarrow> p = zero_key"

definition Public_ShortString :: "wgkey \<Rightarrow> string" where
  "Public_ShortString p = ''['' @ take 5 (b64_encode p) @ '']''"

text \<open>The loop of \<^verbatim>\<open>NewPublicFromHexMem\<close> over the 32 pairs of characters.\<close>

fun hex_pairs :: "string \<Rightarrow> bytes option" where
  "hex_pairs (c # d # s) =
     (case (fromHexChar c, fromHexChar d) of
        (Some a, Some b) \<Rightarrow> map_option (\<lambda>r. (push_bit 4 a OR b) # r) (hex_pairs s)
      | _ \<Rightarrow> None)"
| "hex_pairs _ = Some []"

definition NewPublicFromHexMem :: "string \<Rightarrow> key_error + wgkey" where
  "NewPublicFromHexMem m =
     (if length m \<noteq> 64 then Inl ErrKeyLength
      else case hex_pairs m of None \<Rightarrow> Inl ErrHexChar | Some p \<Rightarrow> Inr p)"

section \<open>The key types of tailcfg\<close>

definition appendKey :: "string \<Rightarrow> string \<Rightarrow> wgkey \<Rightarrow> string" where
  "appendKey base pfx k = base @ pfx @ hex_encode k"

definition keyMarshalText :: "string \<Rightarrow> wgkey \<Rightarrow> string" where
  "keyMarshalText pfx k = appendKey [] pfx k"

definition keyUnmarshalText :: "string \<Rightarrow> string \<Rightarrow> key_error + wgkey" where
  "keyUnmarshalText pfx text =
     (if length text < length pfx \<or> take (length pfx) text \<noteq> pfx then Inl (ErrMissingPrefix pfx)
      else case NewPublicFromHexMem (drop (length pfx) text) of
             Inl e \<Rightarrow> Inl (ErrAfterPrefix pfx e)
           | Inr pub \<Rightarrow> Inr pub)"

definition MachineKey_String :: "wgkey \<Rightarrow> string" where
  "MachineKey_String k = ''mkey:'' @ hex_encode k"

definition MachineKey_MarshalText :: "wgkey \<Rightarrow> string" where
  "MachineKey_MarshalText k = keyMarshalText ''mkey:'' k"

definition MachineKey_HexString :: "wgkey \<Rightarrow> string" where
  "MachineKey_HexString k = hex_encode k"

definition MachineKey_UnmarshalText :: "string \<Rightarrow> key_error + wgkey" where
  "MachineKey_UnmarshalText text = keyUnmarshalText ''mkey:'' text"

definition MachineKey_IsZero :: "wgkey \<Rightarrow> bool" where
  "MachineKey_IsZero k \<longleftrightarrow> k = zero_key"

definition NodeKey_ShortString :: "wgkey \<Rightarrow> string" where
  "NodeKey_ShortString k = Public_ShortString k"

definition NodeKey_String :: "wgkey \<Rightarrow> string" where
  "NodeKey_String k = ''nodekey:'' @ hex_encode k"

definition NodeKey_MarshalText :: "wgkey \<Rightarrow> string" where
  "NodeKey_MarshalText k = keyMarshalText ''nodekey:'' k"

definition NodeKey_UnmarshalText :: "string \<Rightarrow> key_error + wgkey" where
  "NodeKey_UnmarshalText text = keyUnmarshalText ''nodekey:'' text"

definition NodeKey_IsZero :: "wgkey \<Rightarrow> bool" where
  "NodeKey_IsZero k \<longleftrightarrow> k = zero_key"

definition DiscoKey_String :: "wgkey \<Rightarrow> string" where
  "DiscoKey_String k = ''discokey:'' @ hex_encode k"

definition DiscoKey_MarshalText :: "wgkey \<Rightarrow> string" where
  "DiscoKey_MarshalText k = keyMarshalText ''discokey:'' k"

definition DiscoKey_UnmarshalText :: "string \<Rightarrow> key_error + wgkey" where
  "DiscoKey_UnmarshalText text = keyUnmarshalText ''discokey:'' text"

definition DiscoKey_ShortString :: "wgkey \<Rightarrow> string" where
  "DiscoKey_ShortString k = ''d:'' @ hex_encode (take 8 k)"

definition DiscoKey_AppendTo :: "wgkey \<Rightarrow> string \<Rightarrow> string" where
  "DiscoKey_AppendTo k b = appendKey b ''discokey:'' k"

definition DiscoKey_IsZero :: "wgkey \<Rightarrow> bool" where
  "DiscoKey_IsZero k \<longleftrightarrow> k = zero_key"

section \<open>types/wgkey\<close>

definition ParseHex :: "string \<Rightarrow> key_error + wgkey" where
  "ParseHex s =
     (let (b, ok) = hex_decode s
      in if \<not> ok then Inl (ErrInvalidHexKey s)
         else if length b \<noteq> Size then Inl (ErrHexKeyLength s (length b))
         else Inr b)"

definition Key_IsZero :: "wgkey option \<Rightarrow> bool" where
  "Key_IsZero k = (case k of None \<Rightarrow> True | Some k \<Rightarrow> k = zero_key)"

definition clamp :: "wgkey \<Rightarrow> wgkey" where
  "clamp k = k[0 := k ! 0 AND 248, 31 := (k ! 31 AND 127) OR 64]"

definition ParsePrivateHex :: "string \<Rightarrow> key_error + wgkey" where
  "ParsePrivateHex v =
     (case ParseHex v of
        Inl e \<Rightarrow> Inl e
      | Inr pk \<Rightarrow> if Key_IsZero (Some pk) then Inr pk else Inr (clamp pk))"

definition Key_HexString :: "wgkey \<Rightarrow> string" where
  "Key_HexString k = hex_encode k"

definition Key_Base64 :: "wgkey \<Rightarrow> string" where
  "Key_Base64 k = b64_encode k"

definition Key_Equal :: "wgkey \<Rightarrow> wgkey \<Rightarrow> bool" where
  "Key_Equal k k2 \<longleftrightarrow> k = k2"

text \<open>\<^verbatim>\<open>ShortString\<close> encodes four bytes into a buffer of nine, from position 1, and overwrites position 6.\<close>

definition Key_ShortString :: "wgkey \<Rightarrow> string option" where
  "Key_ShortString k =
     do { let dst = replicate 9 (CHR 0x00);
          dst \<leftarrow> set_idx dst 0 (CHR ''['');
          src \<leftarrow> slice k 0 4;
          dst \<leftarrow> copy_at dst 1 (length dst) (b64_encode src);
          dst \<leftarrow> set_idx dst 6 (CHR '']'');
          slice dst 0 7 }"

definition Key_MarshalJSON :: "wgkey \<Rightarrow> string" where
  "Key_MarshalJSON k = [CHR 0x22] @ hex_encode k @ [CHR 0x22]"

text \<open>\<^verbatim>\<open>UnmarshalJSON\<close> ignores the error of \<^verbatim>\<open>hex.Decode\<close>; the bytes after the first error keep the value
  they had in \<open>k\<close>.\<close>

definition Key_UnmarshalJSON :: "wgkey option \<Rightarrow> string \<Rightarrow> key_error + wgkey" where
  "Key_UnmarshalJSON k b =
     (case k of
        None \<Rightarrow> Inl ErrNilPointer
      | Some k \<Rightarrow>
          if length b < 3 \<or> b ! 0 \<noteq> CHR 0x22 \<or> b ! (length b - 1) \<noteq> CHR 0x22 then Inl ErrNotAString
          else let b = take (length b - 2) (drop 1 b)
               in if length b \<noteq> 2 * Size then Inl (ErrJSONSize (length b))
                  else Inr (overwrite k 0 (fst (hex_decode b))))"

fun LessThan :: "wgkey \<Rightarrow> wgkey \<Rightarrow> bool" where
  "LessThan (a # as) (b # bs) = (if a < b then True else if a > b then False else LessThan as bs)"
| "LessThan _ _ = False"

definition Private_MarshalText :: "wgkey \<Rightarrow> string" where
  "Private_MarshalText k = appendKey [] ''privkey:'' k"

definition Private_UnmarshalText :: "string \<Rightarrow> key_error + wgkey" where
  "Private_UnmarshalText s =
     (if \<not> has_prefix s ''privkey:'' then Inl (ErrMissingPrefix ''privkey:'')
      else case ParseHex (trim_prefix s ''privkey:'') of
             Inl e \<Rightarrow> Inl (ErrAfterPrefix ''privkey:'' e)
           | Inr key \<Rightarrow> Inr key)"

section \<open>Round trips\<close>

lemma fromHexChar_hexchar: "n < 16 \<Longrightarrow> fromHexChar (hexchar n) = Some (of_nat n)"
proof -
  have "list_all (\<lambda>n. fromHexChar (hexchar n) = Some (of_nat n)) [0..<16]" by code_simp
  then show "n < 16 \<Longrightarrow> ?thesis" by (auto simp: list_all_iff)
qed

lemma nibbles: "unat (drop_bit 4 (b :: u8)) < 16" "unat ((b :: u8) AND 15) < 16"
  "push_bit 4 (of_nat (unat (drop_bit 4 b))) OR of_nat (unat (b AND 15)) = (b :: u8)"
proof -
  have "unat (drop_bit 4 b) = unat b div 16" by (simp add: drop_bit_eq_div unat_div)
  then show "unat (drop_bit 4 b) < 16" using unat_u8_less [of b] by linarith
  have "b AND 15 = take_bit 4 b" by (simp add: take_bit_eq_mask mask_eq_exp_minus_1)
  then show "unat (b AND 15) < 16" by (simp add: unat_mod take_bit_eq_mod)
  show "push_bit 4 (of_nat (unat (drop_bit 4 b))) OR of_nat (unat (b AND 15)) = b"
    unfolding \<open>b AND 15 = take_bit 4 b\<close> by (rule bit_word_eqI) (auto simp: bit_simps)
qed

lemma hex_byte_parts:
  obtains c d x y where "hex_byte b = [c, d]" "fromHexChar c = Some x" "fromHexChar d = Some y" "push_bit 4 x OR y = b"
  using nibbles [of b] fromHexChar_hexchar by (metis hex_byte_def)

lemma hex_decode_encode [simp]: "hex_decode (hex_encode k) = (k, True)"
proof (induction k)
  case (Cons b k)
  obtain c d x y where "hex_byte b = [c, d]" "fromHexChar c = Some x" "fromHexChar d = Some y" "push_bit 4 x OR y = b"
    by (rule hex_byte_parts)
  with Cons show ?case by (simp add: hex_encode_def)
qed (simp add: hex_encode_def)

lemma hex_pairs_encode [simp]: "hex_pairs (hex_encode k) = Some k"
proof (induction k)
  case (Cons b k)
  obtain c d x y where "hex_byte b = [c, d]" "fromHexChar c = Some x" "fromHexChar d = Some y" "push_bit 4 x OR y = b"
    by (rule hex_byte_parts)
  with Cons show ?case by (simp add: hex_encode_def)
qed (simp add: hex_encode_def)

lemma length_hex_encode [simp]: "length (hex_encode k) = 2 * length k"
  by (induction k) (simp_all add: hex_encode_def hex_byte_def)

lemma keyUnmarshal_Marshal:
  "length k = 32 \<Longrightarrow> keyUnmarshalText p (keyMarshalText p k) = Inr k"
  by (simp add: keyUnmarshalText_def keyMarshalText_def appendKey_def NewPublicFromHexMem_def)



text \<open>A JSON string of 64 characters that are not hexadecimal is accepted, and the key keeps its old value.\<close>

lemma Key_UnmarshalJSON_ignores_error:
  "Key_UnmarshalJSON (Some zero_key) ([CHR 0x22] @ replicate 64 (CHR ''z'') @ [CHR 0x22]) = Inr zero_key"
  by code_simp

text \<open>
  The abbreviated encoding of \<^verbatim>\<open>wgkey.Key.ShortString\<close>, which encodes only the first four bytes, gives what
  \<^verbatim>\<open>key.Public.ShortString\<close> computes from the whole key, and does not panic.
\<close>

theorem Key_ShortString_eq:
  assumes "length k = 32"
  shows "Key_ShortString k = Some (Public_ShortString k)"
proof -
  obtain a b c d e f r where k: "k = a # b # c # d # e # f # r" "length r = 26"
    using assms by (auto simp: numeral_eq_Suc length_Suc_conv)
  have "drop_bit 2 d = d div 4" for d :: u8 by (simp add: drop_bit_eq_div)
  show ?thesis
    by (simp add: k Key_ShortString_def Public_ShortString_def go_defs b64group_def numeral_eq_Suc)
qed

theorem Key_ShortString_eq_witness:
  "Key_ShortString (replicate 32 1) = Some ''[AQEBA]''"
proof -
  have "Public_ShortString (replicate 32 1) = ''[AQEBA]''" by code_simp
  with Key_ShortString_eq [of "replicate 32 1"] show ?thesis by simp
qed

lemma LessThan_lexord: "length a = length b \<Longrightarrow> LessThan a b \<longleftrightarrow> (a, b) \<in> lexord {(x, y). x < y}"
  by (induction a b rule: LessThan.induct) auto

text \<open>\<^verbatim>\<open>LessThan\<close> is a strict total order on keys, the lexicographic order of their bytes.\<close>

lemma LessThan_order:
  assumes "length a = n" "length b = n" "length c = n"
  shows "LessThan a b \<longleftrightarrow> (a, b) \<in> lexord {(x, y). x < y}" "\<not> LessThan a a"
    "LessThan a b \<and> LessThan b c \<Longrightarrow> LessThan a c" "LessThan a b \<or> a = b \<or> LessThan b a"
proof -
  let ?R = "{(x, y). x < (y :: u8)}"
  have "trans ?R" "total ?R" by (auto simp: trans_def total_on_def)
  show "LessThan a b \<longleftrightarrow> (a, b) \<in> lexord ?R" using assms by (intro LessThan_lexord) simp
  have irr: "\<not> LessThan x x" for x by (induction x) auto
  then show "\<not> LessThan a a" .
  show "LessThan a b \<or> a = b \<or> LessThan b a"
    using lexord_linear [of ?R a b] less_linear assms by (auto simp: LessThan_lexord)
  show "LessThan a b \<and> LessThan b c \<Longrightarrow> LessThan a c"
    using lexord_trans [of a b ?R c] assms \<open>trans ?R\<close> by (simp add: LessThan_lexord)
qed

end
