(* ===== verification/Tailcfg.thy ===== *)
theory Tailcfg
  imports Complex_Main Dnsname Keys Netaddr
begin

text \<open>
  The data types of \<^verbatim>\<open>tailcfg/tailcfg.go\<close> that describe the nodes of a network, with their equality tests,
  display names, tags and text forms, and the optional booleans of \<^verbatim>\<open>types/opt/bool.go\<close>. Pointers are options,
  and so are the slices and maps whose \<^verbatim>\<open>nil\<close> value the code distinguishes. A time is an instant, in
  nanoseconds, and the name of a location. The floating point numbers of \<^verbatim>\<open>DERPLatency\<close> are rationals.
\<close>

section \<open>Optional booleans\<close>

type_synonym opt_bool = string

definition Bool_Set :: "bool \<Rightarrow> opt_bool" where
  "Bool_Set v = (if v then ''true'' else ''false'')"

definition Bool_Clear :: opt_bool where
  "Bool_Clear = []"

text \<open>\<^verbatim>\<open>strconv.ParseBool\<close>.\<close>

definition ParseBool :: "string \<Rightarrow> bool option" where
  "ParseBool s =
     (if s \<in> {''1'', ''t'', ''T'', ''true'', ''TRUE'', ''True''} then Some True
      else if s \<in> {''0'', ''f'', ''F'', ''false'', ''FALSE'', ''False''} then Some False
      else None)"

definition Bool_Get :: "opt_bool \<Rightarrow> bool option" where
  "Bool_Get b = (if b = [] then None else ParseBool b)"

definition EqualBool :: "opt_bool \<Rightarrow> bool \<Rightarrow> bool" where
  "EqualBool b v = (case Bool_Get b of None \<Rightarrow> False | Some p \<Rightarrow> p = v)"

definition Bool_MarshalJSON :: "opt_bool \<Rightarrow> string option" where
  "Bool_MarshalJSON b =
     (if b = ''true'' then Some ''true''
      else if b = ''false'' then Some ''false''
      else if b = [] then Some ''null''
      else None)"

definition Bool_UnmarshalJSON :: "string \<Rightarrow> opt_bool option" where
  "Bool_UnmarshalJSON j =
     (if j = ''true'' then Some ''true''
      else if j = ''false'' then Some ''false''
      else if j = ''null'' then Some []
      else None)"

section \<open>Hosts and nodes\<close>

record gotime =
  t_instant :: int
  t_loc :: string

definition Time_Equal :: "gotime \<Rightarrow> gotime \<Rightarrow> bool" where
  "Time_Equal t u \<longleftrightarrow> t_instant t = t_instant u"

record service =
  sv_Proto :: string
  sv_Port :: u16
  sv_Description :: string

record net_info =
  ni_MappingVariesByDestIP :: opt_bool
  ni_HairPinning :: opt_bool
  ni_WorkingIPv6 :: opt_bool
  ni_WorkingUDP :: opt_bool
  ni_HavePortMap :: bool
  ni_UPnP :: opt_bool
  ni_PMP :: opt_bool
  ni_PCP :: opt_bool
  ni_PreferredDERP :: int
  ni_LinkType :: string
  ni_DERPLatency :: "(string \<rightharpoonup> rat) option"

record 'ip hostinfo =
  hi_IPNVersion :: string
  hi_FrontendLogID :: string
  hi_BackendLogID :: string
  hi_OS :: string
  hi_OSVersion :: string
  hi_Package :: string
  hi_DeviceModel :: string
  hi_Hostname :: string
  hi_ShieldsUp :: bool
  hi_ShareeNode :: bool
  hi_GoArch :: string
  hi_RoutableIPs :: "'ip ipprefix list option"
  hi_RequestTags :: "string list option"
  hi_Services :: "service list option"
  hi_NetInfo :: "net_info option"

record 'ip node =
  n_ID :: int
  n_StableID :: string
  n_Name :: string
  n_User :: int
  n_Sharer :: int
  n_Key :: wgkey
  n_KeyExpiry :: gotime
  n_Machine :: wgkey
  n_DiscoKey :: wgkey
  n_Addresses :: "'ip ipprefix list option"
  n_AllowedIPs :: "'ip ipprefix list option"
  n_Endpoints :: "string list option"
  n_DERP :: string
  n_Hostinfo :: "'ip hostinfo"
  n_Created :: gotime
  n_PrimaryRoutes :: "'ip ipprefix list option"
  n_LastSeen :: "gotime option"
  n_Online :: "bool option"
  n_KeepAlive :: bool
  n_MachineAuthorized :: bool
  n_Capabilities :: "string list option"
  n_ComputedName :: string
  n_computedHostIfDifferent :: string
  n_ComputedNameWithHost :: string

text \<open>The zero values of the structs.\<close>

definition zero_time :: gotime where
  "zero_time = \<lparr>t_instant = 0, t_loc = []\<rparr>"

definition zero_hostinfo :: "'ip hostinfo" where
  "zero_hostinfo =
     \<lparr>hi_IPNVersion = [], hi_FrontendLogID = [], hi_BackendLogID = [], hi_OS = [], hi_OSVersion = [], hi_Package = [],
      hi_DeviceModel = [], hi_Hostname = [], hi_ShieldsUp = False, hi_ShareeNode = False, hi_GoArch = [],
      hi_RoutableIPs = None, hi_RequestTags = None, hi_Services = None, hi_NetInfo = None\<rparr>"

definition zero_node :: "'ip node" where
  "zero_node =
     \<lparr>n_ID = 0, n_StableID = [], n_Name = [], n_User = 0, n_Sharer = 0, n_Key = zero_key, n_KeyExpiry = zero_time,
      n_Machine = zero_key, n_DiscoKey = zero_key, n_Addresses = None, n_AllowedIPs = None, n_Endpoints = None,
      n_DERP = [], n_Hostinfo = zero_hostinfo, n_Created = zero_time, n_PrimaryRoutes = None, n_LastSeen = None,
      n_Online = None, n_KeepAlive = False, n_MachineAuthorized = False, n_Capabilities = None,
      n_ComputedName = [], n_computedHostIfDifferent = [], n_ComputedNameWithHost = []\<rparr>"

definition DisplayName :: "'ip node \<Rightarrow> bool \<Rightarrow> string" where
  "DisplayName n forOwner = (if forOwner then n_ComputedNameWithHost n else n_ComputedName n)"

definition DisplayNames :: "'ip node \<Rightarrow> bool \<Rightarrow> string \<times> string" where
  "DisplayNames n forOwner =
     (if forOwner then (n_ComputedName n, n_computedHostIfDifferent n) else (n_ComputedName n, []))"

definition InitDisplayNames :: "string \<Rightarrow> 'ip node \<Rightarrow> 'ip node" where
  "InitDisplayNames networkMagicDNSSuffix n =
     (let name = TrimSuffix (n_Name n) networkMagicDNSSuffix;
          hostIfDifferent = SanitizeHostname (hi_Hostname (n_Hostinfo n));
          hostIfDifferent = (if equal_fold name hostIfDifferent then [] else hostIfDifferent);
          (name, hostIfDifferent) =
            (if name = []
             then if hostIfDifferent \<noteq> [] then (hostIfDifferent, []) else (NodeKey_String (n_Key n), hostIfDifferent)
             else (name, hostIfDifferent));
          nameWithHost = (if hostIfDifferent \<noteq> [] then name @ '' ('' @ hostIfDifferent @ '')'' else name)
      in n\<lparr>n_ComputedName := name, n_computedHostIfDifferent := hostIfDifferent,
           n_ComputedNameWithHost := nameWithHost\<rparr>)"

section \<open>Equality tests\<close>

definition eqBoolPtr :: "bool option \<Rightarrow> bool option \<Rightarrow> bool" where
  "eqBoolPtr a b = (case (a, b) of (None, None) \<Rightarrow> True | (Some x, Some y) \<Rightarrow> x = y | _ \<Rightarrow> False)"

text \<open>The loop shared by \<^verbatim>\<open>eqStrings\<close> and \<^verbatim>\<open>eqCIDRs\<close>, from index \<open>i\<close>.\<close>

fun eq_loop :: "'a list \<Rightarrow> 'a list \<Rightarrow> nat \<Rightarrow> bool" where
  "eq_loop [] b i = True"
| "eq_loop (v # a) b i = (if v \<noteq> b ! i then False else eq_loop a b (Suc i))"

definition eqStrings :: "string list option \<Rightarrow> string list option \<Rightarrow> bool" where
  "eqStrings a b =
     (if length (elems a) \<noteq> length (elems b) \<or> (a = None) \<noteq> (b = None) then False
      else eq_loop (elems a) (elems b) 0)"

definition eqCIDRs :: "'ip ipprefix list option \<Rightarrow> 'ip ipprefix list option \<Rightarrow> bool" where
  "eqCIDRs a b =
     (if length (elems a) \<noteq> length (elems b) \<or> (a = None) \<noteq> (b = None) then False
      else eq_loop (elems a) (elems b) 0)"

definition eqTimePtr :: "gotime option \<Rightarrow> gotime option \<Rightarrow> bool" where
  "eqTimePtr a b \<longleftrightarrow> (a = None) = (b = None) \<and> (a = None \<or> Time_Equal (the a) (the b))"

definition BasicallyEqual :: "net_info option \<Rightarrow> net_info option \<Rightarrow> bool" where
  "BasicallyEqual ni ni2 =
     (case (ni, ni2) of
        (None, None) \<Rightarrow> True
      | (Some a, Some b) \<Rightarrow>
          ni_MappingVariesByDestIP a = ni_MappingVariesByDestIP b \<and> ni_HairPinning a = ni_HairPinning b \<and>
          ni_WorkingIPv6 a = ni_WorkingIPv6 b \<and> ni_WorkingUDP a = ni_WorkingUDP b \<and>
          ni_HavePortMap a = ni_HavePortMap b \<and> ni_UPnP a = ni_UPnP b \<and> ni_PMP a = ni_PMP b \<and>
          ni_PCP a = ni_PCP b \<and> ni_PreferredDERP a = ni_PreferredDERP b \<and> ni_LinkType a = ni_LinkType b
      | _ \<Rightarrow> False)"

definition conciseOptBool :: "opt_bool \<Rightarrow> string \<Rightarrow> string" where
  "conciseOptBool b trueVal =
     (if b = [] then ''_''
      else case Bool_Get b of None \<Rightarrow> ''x'' | Some v \<Rightarrow> if v then trueVal else [])"

definition portMapSummary :: "net_info \<Rightarrow> string" where
  "portMapSummary ni =
     (if \<not> ni_HavePortMap ni \<and> ni_UPnP ni = [] \<and> ni_PMP ni = [] \<and> ni_PCP ni = [] then ''?''
      else (if ni_HavePortMap ni then ''active-'' else []) @
        conciseOptBool (ni_UPnP ni) ''U'' @ conciseOptBool (ni_PMP ni) ''M'' @ conciseOptBool (ni_PCP ni) ''C'')"

text \<open>\<^verbatim>\<open>reflect.DeepEqual\<close> on two host descriptions compares all their fields, slices and maps element by
  element and \<^verbatim>\<open>nil\<close> ones apart from empty ones: it is equality of the records.\<close>

definition Hostinfo_Equal :: "'ip hostinfo option \<Rightarrow> 'ip hostinfo option \<Rightarrow> bool" where
  "Hostinfo_Equal h h2 =
     (if h = None \<and> h2 = None then True
      else if (h = None) \<noteq> (h2 = None) then False
      else h = h2)"

definition Node_Equal :: "'ip node option \<Rightarrow> 'ip node option \<Rightarrow> bool" where
  "Node_Equal n n2 =
     (case (n, n2) of
        (None, None) \<Rightarrow> True
      | (Some n, Some n2) \<Rightarrow>
          n_ID n = n_ID n2 \<and> n_StableID n = n_StableID n2 \<and> n_Name n = n_Name n2 \<and> n_User n = n_User n2 \<and>
          n_Sharer n = n_Sharer n2 \<and> n_Key n = n_Key n2 \<and> Time_Equal (n_KeyExpiry n) (n_KeyExpiry n2) \<and>
          n_Machine n = n_Machine n2 \<and> n_DiscoKey n = n_DiscoKey n2 \<and> eqBoolPtr (n_Online n) (n_Online n2) \<and>
          eqCIDRs (n_Addresses n) (n_Addresses n2) \<and> eqCIDRs (n_AllowedIPs n) (n_AllowedIPs n2) \<and>
          eqCIDRs (n_PrimaryRoutes n) (n_PrimaryRoutes n2) \<and> eqStrings (n_Endpoints n) (n_Endpoints n2) \<and>
          n_DERP n = n_DERP n2 \<and> Hostinfo_Equal (Some (n_Hostinfo n)) (Some (n_Hostinfo n2)) \<and>
          Time_Equal (n_Created n) (n_Created n2) \<and> eqTimePtr (n_LastSeen n) (n_LastSeen n2) \<and>
          n_MachineAuthorized n = n_MachineAuthorized n2 \<and> eqStrings (n_Capabilities n) (n_Capabilities n2) \<and>
          n_ComputedName n = n_ComputedName n2 \<and>
          n_computedHostIfDifferent n = n_computedHostIfDifferent n2 \<and>
          n_ComputedNameWithHost n = n_ComputedNameWithHost n2
      | _ \<Rightarrow> False)"

section \<open>Tags\<close>

datatype tag_error = ErrTagPrefix | ErrTagEmpty | ErrTagLetter | ErrTagChars | ErrRequestTag string tag_error

definition isNum :: "char \<Rightarrow> bool" where
  "isNum b \<longleftrightarrow> b \<ge> CHR ''0'' \<and> b \<le> CHR ''9''"

definition isAlpha :: "char \<Rightarrow> bool" where
  "isAlpha b \<longleftrightarrow> b \<ge> CHR ''A'' \<and> b \<le> CHR ''Z'' \<or> b \<ge> CHR ''a'' \<and> b \<le> CHR ''z''"

fun tag_chars :: "string \<Rightarrow> tag_error option" where
  "tag_chars [] = None"
| "tag_chars (b # t) = (if \<not> isNum b \<and> \<not> isAlpha b \<and> b \<noteq> CHR ''-'' then Some ErrTagChars else tag_chars t)"

definition CheckTag :: "string \<Rightarrow> tag_error option" where
  "CheckTag tag =
     (if \<not> has_prefix tag ''tag:'' then Some ErrTagPrefix
      else let tag = drop 4 tag
           in if tag = [] then Some ErrTagEmpty
              else if \<not> isAlpha (tag ! 0) then Some ErrTagLetter
              else tag_chars tag)"

fun check_tags :: "string list \<Rightarrow> tag_error option" where
  "check_tags [] = None"
| "check_tags (tag # ts) = (case CheckTag tag of Some e \<Rightarrow> Some (ErrRequestTag tag e) | None \<Rightarrow> check_tags ts)"

definition CheckRequestTags :: "'ip hostinfo option \<Rightarrow> tag_error option" where
  "CheckRequestTags h = (case h of None \<Rightarrow> None | Some h \<Rightarrow> check_tags (elems (hi_RequestTags h)))"

section \<open>Status values\<close>

text \<open>\<^verbatim>\<open>MachineStatus\<close> and \<^verbatim>\<open>SignatureType\<close> are integers with named values.\<close>

definition MachineUnknown :: int where "MachineUnknown = 0"
definition MachineUnauthorized :: int where "MachineUnauthorized = 1"
definition MachineAuthorized :: int where "MachineAuthorized = 2"
definition MachineInvalid :: int where "MachineInvalid = 3"

definition SignatureNone :: int where "SignatureNone = 0"
definition SignatureUnknown :: int where "SignatureUnknown = 1"
definition SignatureV1 :: int where "SignatureV1 = 2"

definition MachineStatus_String :: "int \<Rightarrow> string" where
  "MachineStatus_String m =
     (if m = MachineUnknown then ''machine-unknown''
      else if m = MachineUnauthorized then ''machine-unauthorized''
      else if m = MachineAuthorized then ''machine-authorized''
      else if m = MachineInvalid then ''machine-invalid''
      else ''machine-unknown('' @ fmt_int m @ '')'')"

definition SignatureType_String :: "int \<Rightarrow> string" where
  "SignatureType_String st =
     (if st = SignatureNone then ''signature-none''
      else if st = SignatureUnknown then ''signature-unknown''
      else if st = SignatureV1 then ''signature-v1''
      else ''signature-unknown('' @ fmt_int st @ '')'')"

text \<open>
  \<^verbatim>\<open>fmt.Sscanf(s, pre + "%d" + post, &val)\<close> for literal text \<open>pre\<close> and \<open>post\<close>: the value of \<^verbatim>\<open>val\<close>
  afterwards, and whether there was no error. The number may follow blanks and have a sign, and must be
  representable in 64 bits; it is stored before the text after it is compared.
\<close>

definition scan_int :: "string \<Rightarrow> (int \<times> string) option" where
  "scan_int s =
     (let s = dropWhile (\<lambda>c. c = CHR '' '' \<or> c = CHR 0x09) s;
          neg = (take 1 s = ''-'');
          s = (if neg \<or> take 1 s = ''+'' then drop 1 s else s);
          ds = takeWhile isdigit s;
          n = (if neg then - int (dec_value ds) else int (dec_value ds))
      in if ds = [] \<or> n < - (2 ^ 63) \<or> n \<ge> 2 ^ 63 then None else Some (n, drop (length ds) s))"

definition Sscanf_d :: "string \<Rightarrow> string \<Rightarrow> string \<Rightarrow> int \<times> bool" where
  "Sscanf_d pre post s =
     (if \<not> has_prefix s pre then (0, False)
      else case scan_int (drop (length pre) s) of
             None \<Rightarrow> (0, False)
           | Some (n, r) \<Rightarrow> (n, has_prefix r post))"

definition MachineStatus_UnmarshalText :: "string \<Rightarrow> int" where
  "MachineStatus_UnmarshalText b =
     (if b = ''machine-unknown'' then MachineUnknown
      else if b = ''machine-unauthorized'' then MachineUnauthorized
      else if b = ''machine-authorized'' then MachineAuthorized
      else if b = ''machine-invalid'' then MachineInvalid
      else let (val, ok) = Sscanf_d ''machine-unknown('' '')'' b
           in if \<not> ok then val else MachineUnknown)"

definition SignatureType_UnmarshalText :: "string \<Rightarrow> int" where
  "SignatureType_UnmarshalText b =
     (if b = ''signature-none'' then SignatureNone
      else if b = ''signature-v1'' then SignatureV1
      else let (val, ok) = Sscanf_d ''signature-unknown('' '')'' b
           in if \<not> ok then val else SignatureUnknown)"

section \<open>Properties\<close>

lemma eq_loop_iff: "length b = i + length a \<Longrightarrow> eq_loop a b i \<longleftrightarrow> a = drop i b"
proof (induction a arbitrary: i)
  case (Cons v a)
  then have "drop i b = b ! i # drop (Suc i) b" by (simp add: Cons_nth_drop_Suc)
  with Cons show ?case by auto
qed simp

lemma eqStrings_iff [simp]: "eqStrings a b \<longleftrightarrow> a = b"
  by (cases a; cases b) (auto simp: eqStrings_def eq_loop_iff)

lemma eqCIDRs_iff [simp]: "eqCIDRs a b \<longleftrightarrow> a = b"
  by (cases a; cases b) (auto simp: eqCIDRs_def eq_loop_iff)

lemma eqBoolPtr_iff [simp]: "eqBoolPtr a b \<longleftrightarrow> a = b"
  by (cases a; cases b) (auto simp: eqBoolPtr_def)

lemma Hostinfo_Equal_iff [simp]: "Hostinfo_Equal h h2 \<longleftrightarrow> h = h2"
  by (auto simp: Hostinfo_Equal_def)

text \<open>A node without what \<^verbatim>\<open>Node.Equal\<close> ignores: the locations of its times, and the field \<^verbatim>\<open>KeepAlive\<close>.\<close>

definition utc :: "gotime \<Rightarrow> gotime" where
  "utc t = \<lparr>t_instant = t_instant t, t_loc = []\<rparr>"

definition canon :: "'ip node \<Rightarrow> 'ip node" where
  "canon n = n\<lparr>n_KeyExpiry := utc (n_KeyExpiry n), n_Created := utc (n_Created n),
     n_LastSeen := map_option utc (n_LastSeen n), n_KeepAlive := False\<rparr>"

lemma Time_Equal_iff: "Time_Equal t u \<longleftrightarrow> utc t = utc u"
  by (simp add: Time_Equal_def utc_def)

lemma eqTimePtr_iff: "eqTimePtr a b \<longleftrightarrow> map_option utc a = map_option utc b"
  by (cases a; cases b) (auto simp: eqTimePtr_def Time_Equal_iff)

lemma node_eq_iff:
  fixes a b :: "'ip node"
  shows "a = b \<longleftrightarrow>
     n_ID a = n_ID b \<and> n_StableID a = n_StableID b \<and> n_Name a = n_Name b \<and> n_User a = n_User b \<and>
     n_Sharer a = n_Sharer b \<and> n_Key a = n_Key b \<and> n_KeyExpiry a = n_KeyExpiry b \<and> n_Machine a = n_Machine b \<and>
     n_DiscoKey a = n_DiscoKey b \<and> n_Addresses a = n_Addresses b \<and> n_AllowedIPs a = n_AllowedIPs b \<and> n_Endpoints a = n_Endpoints b \<and>
     n_DERP a = n_DERP b \<and> n_Hostinfo a = n_Hostinfo b \<and> n_Created a = n_Created b \<and> n_PrimaryRoutes a = n_PrimaryRoutes b \<and>
     n_LastSeen a = n_LastSeen b \<and> n_Online a = n_Online b \<and> n_KeepAlive a = n_KeepAlive b \<and> n_MachineAuthorized a = n_MachineAuthorized b \<and>
     n_Capabilities a = n_Capabilities b \<and> n_ComputedName a = n_ComputedName b \<and> n_computedHostIfDifferent a = n_computedHostIfDifferent b \<and> n_ComputedNameWithHost a = n_ComputedNameWithHost b"
  by (cases a; cases b) simp

text \<open>
  \<^verbatim>\<open>Node.Equal\<close> compares everything except the field \<^verbatim>\<open>KeepAlive\<close> and the time zones in which times are
  expressed: two nodes are equal exactly when they agree once these are removed. In particular it is an
  equivalence relation, and it tells a \<^verbatim>\<open>nil\<close> slice from an empty one.
\<close>

theorem Node_Equal_canon:
  "Node_Equal n n2 \<longleftrightarrow> map_option canon n = map_option canon n2"
proof (cases n; cases n2)
  fix a b :: "'a node"
  assume n: "n = Some a" "n2 = Some b"
  show ?thesis
    unfolding n Node_Equal_def Time_Equal_iff eqTimePtr_iff
    by (simp add: canon_def node_eq_iff conj_ac)
qed (auto simp: Node_Equal_def)

lemma tag_chars_iff: "tag_chars t = None \<longleftrightarrow> (\<forall>b \<in> set t. isNum b \<or> isAlpha b \<or> b = CHR ''-'')"
  by (induction t) auto

text \<open>
  \<^verbatim>\<open>CheckTag\<close> accepts exactly the tags that consist of \<^verbatim>\<open>tag:\<close>, a letter, and further letters, digits and
  dashes.
\<close>

theorem CheckTag_iff:
  "CheckTag t = None \<longleftrightarrow>
     (\<exists>c r. t = ''tag:'' @ c # r \<and> isAlpha c \<and> list_all (\<lambda>b. isNum b \<or> isAlpha b \<or> b = CHR ''-'') r)"
proof (cases "prefix ''tag:'' t")
  case True
  then obtain r where t: "t = ''tag:'' @ r" by (auto simp: prefix_def)
  show ?thesis unfolding t by (cases r) (auto simp: CheckTag_def tag_chars_iff list_all_iff)
next
  case False
  then have "t \<noteq> ''tag:'' @ r" for r by auto
  with False show ?thesis by (simp add: CheckTag_def)
qed

lemma scan_fmt:
  assumes "- (2 ^ 63) \<le> i" "i < 2 ^ 63" "r \<noteq> [] \<Longrightarrow> \<not> isdigit (hd r)"
  shows "scan_int (fmt_int i @ r) = Some (i, r)"
proof -
  let ?ds = "fmt_nat (nat \<bar>i\<bar>)"
  have dig: "\<forall>c \<in> set ?ds. isdigit c" using fmt_nat_digits by blast
  then have tw: "takeWhile isdigit (?ds @ r) = ?ds" using assms(3)
    by (cases r) (auto simp: takeWhile_append2)
  have plain: "\<not> (c = CHR '' '' \<or> c = CHR 0x09)" "c \<noteq> CHR ''-''" "c \<noteq> CHR ''+''" if "isdigit c" for c
    using that by (auto simp: isdigit_def less_eq_char_def)
  obtain d ds where d: "?ds = d # ds" "isdigit d" using dig by (cases ?ds) auto
  show ?thesis
  proof (cases "i < 0")
    case True
    then have "fmt_int i = ''-'' @ ?ds" by (simp add: fmt_int_def)
    with True tw assms show ?thesis by (simp add: scan_int_def Let_def)
  next
    case False
    then have "fmt_int i = ?ds" by (simp add: fmt_int_def)
    moreover have "dec_value (d # ds) = nat i" using False d(1) dec_value_fmt_nat [of "nat i"] by simp
    ultimately show ?thesis using False tw assms plain [OF d(2)] d by (simp add: scan_int_def Let_def)
  qed
qed

text \<open>
  Status values do not survive their own text form: the error test in the two \<^verbatim>\<open>UnmarshalText\<close> methods is
  inverted. A machine status without a name, written as \<^verbatim>\<open>machine-unknown(n)\<close>, is read back as
  \<^verbatim>\<open>MachineUnknown\<close>, an unnamed signature type as \<^verbatim>\<open>SignatureUnknown\<close>, and \<^verbatim>\<open>SignatureUnknown\<close> itself, which
  should be treated as an error, is read back as \<^verbatim>\<open>SignatureNone\<close>. The other named values are read back as
  they were.
\<close>

theorem status_text:
  assumes "- (2 ^ 63) \<le> v" "v < 2 ^ 63"
  shows "MachineStatus_UnmarshalText (MachineStatus_String v) = (if 0 \<le> v \<and> v \<le> 3 then v else MachineUnknown) \<and>
    SignatureType_UnmarshalText (SignatureType_String v) =
      (if v = SignatureUnknown then SignatureNone
       else if v = SignatureNone \<or> v = SignatureV1 then v else SignatureUnknown)"
proof -
  have "\<not> isdigit (CHR '')'')" by code_simp
  then have scan: "scan_int (fmt_int v @ '')'') = Some (v, '')'')" using assms by (intro scan_fmt) auto
  have s: "Sscanf_d p '')'' (p @ fmt_int v @ '')'') = (v, True)" for p
    unfolding Sscanf_d_def by (simp add: scan)
  have named: "v \<in> {0, 1, 2, 3}" if "0 \<le> v" "v \<le> 3" using that by auto
  have "MachineStatus_UnmarshalText ''machine-unknown'' = 0" "MachineStatus_UnmarshalText ''machine-unauthorized'' = 1"
    "MachineStatus_UnmarshalText ''machine-authorized'' = 2" "MachineStatus_UnmarshalText ''machine-invalid'' = 3"
    by code_simp+
  moreover have "SignatureType_UnmarshalText ''signature-none'' = 0" "SignatureType_UnmarshalText ''signature-unknown'' = 0"
    "SignatureType_UnmarshalText ''signature-v1'' = 2"
    by code_simp+
  moreover have "MachineStatus_UnmarshalText (''machine-unknown('' @ fmt_int v @ '')'') = 0"
    using s [of "''machine-unknown(''"] by (simp add: MachineStatus_UnmarshalText_def MachineUnknown_def)
  moreover have "SignatureType_UnmarshalText (''signature-unknown('' @ fmt_int v @ '')'') = 1"
    using s [of "''signature-unknown(''"] by (simp add: SignatureType_UnmarshalText_def SignatureUnknown_def)
  ultimately show ?thesis
    using named unfolding MachineStatus_String_def SignatureType_String_def
      MachineUnknown_def MachineUnauthorized_def MachineAuthorized_def MachineInvalid_def
      SignatureNone_def SignatureUnknown_def SignatureV1_def
    by auto
qed

theorem status_text_witness:
  "SignatureType_UnmarshalText (SignatureType_String SignatureUnknown) = SignatureNone \<and>
   MachineStatus_UnmarshalText (MachineStatus_String 7) = MachineUnknown"
  using status_text [of SignatureUnknown] status_text [of 7] by (simp add: SignatureUnknown_def)

end
