(* ===== verification/Netmap.thy ===== *)
theory Netmap
  imports Tailcfg Filterrules
begin

text \<open>
  The network map: the parts of a map response of the control server (\<^verbatim>\<open>tailcfg/tailcfg.go\<close>,
  \<^verbatim>\<open>tailcfg/derpmap.go\<close>, \<^verbatim>\<open>types/dnstype/dnstype.go\<close>), and \<^verbatim>\<open>types/netmap/netmap.go\<close> with the comparison of two
  network maps. A Go map that is ranged over is an association list with distinct keys, in the order of
  the iteration.
\<close>

section \<open>Data\<close>

record derp_node =
  dn_Name :: string
  dn_RegionID :: int
  dn_HostName :: string
  dn_CertName :: string
  dn_IPv4 :: string
  dn_IPv6 :: string
  dn_STUNPort :: int
  dn_STUNOnly :: bool
  dn_DERPPort :: int
  dn_InsecureForTests :: bool
  dn_STUNTestIP :: string

record derp_region =
  dr_RegionID :: int
  dr_RegionCode :: string
  dr_RegionName :: string
  dr_Avoid :: bool
  dr_Nodes :: "derp_node list"

record derp_map =
  dm_Regions :: "(int \<times> derp_region) list"
  dm_OmitDefaultRegions :: bool

definition RegionIDs :: "derp_map \<Rightarrow> int list" where
  "RegionIDs m = sort (map fst (dm_Regions m))"

record 'ip dns_resolver =
  rs_Addr :: string
  rs_BootstrapResolution :: "'ip list"

record dns_record =
  rec_Name :: string
  rec_Type :: string
  rec_Value :: string

record 'ip dns_config =
  dc_Resolvers :: "'ip dns_resolver list"
  dc_Routes :: "(string \<times> 'ip dns_resolver list) list"
  dc_FallbackResolvers :: "'ip dns_resolver list"
  dc_Domains :: "string list"
  dc_Proxied :: bool
  dc_Nameservers :: "'ip list"
  dc_PerDomain :: bool
  dc_CertDomains :: "string list"
  dc_ExtraRecords :: "dns_record list"

record user_profile =
  up_ID :: int
  up_LoginName :: string
  up_DisplayName :: string
  up_ProfilePicURL :: string

record debug_opts =
  db_LogHeapPprof :: bool
  db_LogHeapURL :: string
  db_ForceBackgroundSTUN :: bool
  db_DERPRoute :: opt_bool
  db_TrimWGConfig :: opt_bool
  db_DisableSubnetsIfPAC :: opt_bool
  db_GoroutineDumpURL :: string
  db_SleepSeconds :: rat
  db_RandomizeClientPort :: bool
  db_DisableUPnP :: opt_bool

record ping_request =
  pg_URL :: string
  pg_Log :: bool

record 'ip map_response =
  mr_KeepAlive :: bool
  mr_PingRequest :: "ping_request option"
  mr_Node :: "'ip node option"
  mr_DERPMap :: "derp_map option"
  mr_Peers :: "'ip node list"
  mr_PeersChanged :: "'ip node list"
  mr_PeersRemoved :: "int list"
  mr_PeerSeenChange :: "(int \<times> bool) list"
  mr_OnlineChange :: "(int \<times> bool) list"
  mr_DNS :: "'ip list"
  mr_SearchPaths :: "string list"
  mr_DNSConfig :: "'ip dns_config option"
  mr_Domain :: string
  mr_CollectServices :: opt_bool
  mr_PacketFilter :: "filter_rule list option"
  mr_UserProfiles :: "user_profile list"
  mr_Debug :: "debug_opts option"

record 'ip network_map =
  nm_SelfNode :: "'ip node option"
  nm_NodeKey :: wgkey
  nm_PrivateKey :: wgkey
  nm_Expiry :: gotime
  nm_Name :: string
  nm_Addresses :: "'ip ipprefix list option"
  nm_LocalPort :: u16
  nm_MachineStatus :: int
  nm_MachineKey :: wgkey
  nm_Peers :: "'ip node list"
  nm_DNS :: "'ip dns_config"
  nm_Hostinfo :: "'ip hostinfo"
  nm_PacketFilter :: "'ip match_rule list"
  nm_CollectServices :: bool
  nm_DERPMap :: "derp_map option"
  nm_Debug :: "debug_opts option"
  nm_User :: int
  nm_Domain :: string
  nm_UserProfiles :: "int \<rightharpoonup> user_profile"

definition zero_dns_config :: "'ip dns_config" where
  "zero_dns_config =
     \<lparr>dc_Resolvers = [], dc_Routes = [], dc_FallbackResolvers = [], dc_Domains = [], dc_Proxied = False,
      dc_Nameservers = [], dc_PerDomain = False, dc_CertDomains = [], dc_ExtraRecords = []\<rparr>"

definition zero_map_response :: "'ip map_response" where
  "zero_map_response =
     \<lparr>mr_KeepAlive = False, mr_PingRequest = None, mr_Node = None, mr_DERPMap = None, mr_Peers = [],
      mr_PeersChanged = [], mr_PeersRemoved = [], mr_PeerSeenChange = [], mr_OnlineChange = [], mr_DNS = [],
      mr_SearchPaths = [], mr_DNSConfig = None, mr_Domain = [], mr_CollectServices = [], mr_PacketFilter = None,
      mr_UserProfiles = [], mr_Debug = None\<rparr>"

definition zero_network_map :: "'ip network_map" where
  "zero_network_map =
     \<lparr>nm_SelfNode = None, nm_NodeKey = zero_key, nm_PrivateKey = zero_key, nm_Expiry = zero_time, nm_Name = [],
      nm_Addresses = None, nm_LocalPort = 0, nm_MachineStatus = MachineUnknown, nm_MachineKey = zero_key,
      nm_Peers = [], nm_DNS = zero_dns_config, nm_Hostinfo = zero_hostinfo, nm_PacketFilter = [],
      nm_CollectServices = False, nm_DERPMap = None, nm_Debug = None, nm_User = 0, nm_Domain = [],
      nm_UserProfiles = Map.empty\<rparr>"

section \<open>Comparing network maps\<close>

definition MagicDNSSuffix :: "'ip network_map \<Rightarrow> string" where
  "MagicDNSSuffix nm =
     (let name = trim_char (nm_Name nm) (CHR ''.'')
      in if str_contains name (CHR ''.'') then snd (str_cut name (CHR ''.'')) else name)"

definition eqStringsIgnoreNil :: "string list option \<Rightarrow> string list option \<Rightarrow> bool" where
  "eqStringsIgnoreNil a b =
     (if length (elems a) \<noteq> length (elems b) then False else eq_loop (elems a) (elems b) 0)"

definition eqCIDRsIgnoreNil :: "'ip ipprefix list option \<Rightarrow> 'ip ipprefix list option \<Rightarrow> bool" where
  "eqCIDRsIgnoreNil a b =
     (if length (elems a) \<noteq> length (elems b) then False else eq_loop (elems a) (elems b) 0)"

definition equalConciseHeader :: "'ip network_map \<Rightarrow> 'ip network_map \<Rightarrow> bool" where
  "equalConciseHeader a b =
     (if nm_NodeKey a \<noteq> nm_NodeKey b \<or> nm_MachineStatus a \<noteq> nm_MachineStatus b \<or>
         nm_LocalPort a \<noteq> nm_LocalPort b \<or> nm_User a \<noteq> nm_User b \<or>
         length (elems (nm_Addresses a)) \<noteq> length (elems (nm_Addresses b)) then False
      else if \<not> eq_loop (elems (nm_Addresses a)) (elems (nm_Addresses b)) 0 then False
      else nm_Debug a = None \<and> nm_Debug b = None \<or> nm_Debug a = nm_Debug b)"

definition nodeConciseEqual :: "'ip node \<Rightarrow> 'ip node \<Rightarrow> bool" where
  "nodeConciseEqual a b \<longleftrightarrow>
     n_Key a = n_Key b \<and> n_DERP a = n_DERP b \<and> n_DiscoKey a = n_DiscoKey b \<and>
     eqCIDRsIgnoreNil (n_AllowedIPs a) (n_AllowedIPs b) \<and> eqStringsIgnoreNil (n_Endpoints a) (n_Endpoints b)"

text \<open>The lines of the difference; the text of a line, which the two \<^verbatim>\<open>print\<close> functions produce, is the header
  or the peer it is printed from.\<close>

datatype 'ip diff_line =
    MinusHeader "'ip network_map" | PlusHeader "'ip network_map" | MinusPeer "'ip node" | PlusPeer "'ip node"

fun diff_peers :: "'ip node list \<Rightarrow> 'ip node list \<Rightarrow> 'ip diff_line list \<Rightarrow> 'ip diff_line list" where
  "diff_peers (pa # aps) (pb # bps) diff =
     (if n_ID pa = n_ID pb
      then diff_peers aps bps (if \<not> nodeConciseEqual pa pb then diff @ [MinusPeer pa, PlusPeer pb] else diff)
      else if n_ID pa > n_ID pb then diff_peers (pa # aps) bps (diff @ [PlusPeer pb])
      else diff_peers aps (pb # bps) (diff @ [MinusPeer pa]))"
| "diff_peers aps [] diff = diff @ map MinusPeer aps"
| "diff_peers [] bps diff = diff @ map PlusPeer bps"

definition ConciseDiffFrom :: "'ip network_map \<Rightarrow> 'ip network_map \<Rightarrow> 'ip diff_line list" where
  "ConciseDiffFrom b a =
     diff_peers (nm_Peers a) (nm_Peers b)
       (if \<not> equalConciseHeader a b then [MinusHeader a, PlusHeader b] else [])"

section \<open>The difference of two network maps\<close>

lemma eqStringsIgnoreNil_iff [simp]: "eqStringsIgnoreNil a b \<longleftrightarrow> elems a = elems b"
  by (auto simp: eqStringsIgnoreNil_def eq_loop_iff)

lemma eqCIDRsIgnoreNil_iff [simp]: "eqCIDRsIgnoreNil a b \<longleftrightarrow> elems a = elems b"
  by (auto simp: eqCIDRsIgnoreNil_def eq_loop_iff)

abbreviation sorted_nodes :: "'ip node list \<Rightarrow> bool" where
  "sorted_nodes ns \<equiv> sorted_wrt (<) (map n_ID ns)"

abbreviation peer_map :: "'ip node list \<Rightarrow> int \<rightharpoonup> 'ip node" where
  "peer_map ns \<equiv> map_of (map (\<lambda>n. (n_ID n, n)) ns)"

lemma peer_map_None: "peer_map ns i = None \<longleftrightarrow> i \<notin> n_ID ` set ns"
  by (simp add: map_of_eq_None_iff image_image)

lemma peer_map_id: "peer_map ns i = Some n \<Longrightarrow> n_ID n = i \<and> n \<in> set ns"
  by (auto dest: map_of_SomeD)

lemma peer_map_Some: "distinct (map n_ID ns) \<Longrightarrow> peer_map ns i = Some n \<longleftrightarrow> n \<in> set ns \<and> n_ID n = i"
  using peer_map_id [of ns i n] by (auto simp: comp_def intro!: map_of_is_SomeI)

lemma sorted_nodes_distinct: "sorted_nodes ns \<Longrightarrow> distinct (map n_ID ns)"
  by (simp only: strict_sorted_iff)

lemma peer_map_eqI:
  assumes "distinct (map n_ID a)" "distinct (map n_ID b)" "set a = set b"
  shows "peer_map a = peer_map b"
proof
  fix i
  have "peer_map a i = Some n \<longleftrightarrow> peer_map b i = Some n" for n
    unfolding peer_map_Some [OF assms(1)] peer_map_Some [OF assms(2)] assms(3) by (rule refl)
  then show "peer_map a i = peer_map b i" by (rule option_eqI)
qed

text \<open>The peers of one list that the other list does not have in the same form.\<close>

definition unmatched :: "('ip node \<Rightarrow> 'ip node \<Rightarrow> bool) \<Rightarrow> 'ip node list \<Rightarrow> 'ip node list \<Rightarrow> 'ip node set" where
  "unmatched same a b = {p \<in> set a. \<not> (\<exists>q \<in> set b. n_ID q = n_ID p \<and> same p q)}"

lemma unmatched_Nil [simp]: "unmatched same [] b = {}" "unmatched same a [] = set a"
  by (auto simp: unmatched_def)

lemma unmatched_first:
  "\<forall>q \<in> set b. n_ID p < n_ID q \<Longrightarrow> unmatched same (p # a) b = insert p (unmatched same a b)"
  by (auto simp: unmatched_def)

lemma unmatched_skip:
  "\<forall>q \<in> set a. n_ID p < n_ID q \<Longrightarrow> unmatched same a (p # b) = unmatched same a b"
  by (auto simp: unmatched_def)

lemma unmatched_both:
  assumes "n_ID p = n_ID q" "\<forall>r \<in> set a. n_ID p < n_ID r" "\<forall>r \<in> set b. n_ID p < n_ID r"
  shows "unmatched same (p # a) (q # b) = (if same p q then {} else {p}) \<union> unmatched same a b"
proof -
  have "unmatched same (p # a) (q # b) = {r \<in> {p}. \<not> (\<exists>s \<in> set (q # b). n_ID s = n_ID r \<and> same r s)} \<union> unmatched same a (q # b)"
    by (auto simp: unmatched_def)
  also have "unmatched same a (q # b) = unmatched same a b" using assms by (intro unmatched_skip) simp
  also have "{r \<in> {p}. \<not> (\<exists>s \<in> set (q # b). n_ID s = n_ID r \<and> same r s)} = (if same p q then {} else {p})"
    using assms by (auto dest: bspec)
  finally show ?thesis .
qed

lemma set_diff_peers:
  "sorted_nodes a \<Longrightarrow> sorted_nodes b \<Longrightarrow> set (diff_peers a b d) = set d \<union>
     MinusPeer ` unmatched nodeConciseEqual a b \<union> PlusPeer ` unmatched (\<lambda>p q. nodeConciseEqual q p) b a"
proof (induction a b d rule: diff_peers.induct)
  case (1 pa aps pb bps d)
  then have lt: "\<forall>q \<in> set aps. n_ID pa < n_ID q" "\<forall>q \<in> set bps. n_ID pb < n_ID q"
    and srt: "sorted_nodes aps" "sorted_nodes bps"
    by auto
  show ?case
  proof (cases "n_ID pa" "n_ID pb" rule: linorder_cases)
    case equal
    with 1(1) [OF equal srt] lt show ?thesis by (simp add: unmatched_both Un_ac insert_commute)
  next
    case greater
    with lt(1) have "\<forall>q \<in> set (pa # aps). n_ID pb < n_ID q" by fastforce
    with 1(2) greater 1(4,5) show ?thesis by (simp add: unmatched_first unmatched_skip)
  next
    case less
    with lt(2) have "\<forall>q \<in> set (pb # bps). n_ID pa < n_ID q" by fastforce
    with 1(3) less 1(4,5) show ?thesis by (simp add: unmatched_first unmatched_skip)
  qed
qed auto



end
