(* ===== verification/Mapsession.thy ===== *)
theory Mapsession
  imports Netmap "HOL-Library.Multiset"
begin

text \<open>
  The map session of the control client, \<^verbatim>\<open>control/controlclient/map.go\<close>: it completes the incremental map
  responses of the control server to full network maps. The clock, the two debug settings read from the
  environment and the computation of a public key are the record \<open>map_env\<close>. The nodes of a response are owned
  by the session once it has been handled: a pointer into the list of peers is an index of the list.
\<close>

record 'ip map_env =
  me_clockNow :: gotime
  me_selfIPv6Only :: bool
  me_ProxyDNS :: bool
  me_Public :: "wgkey \<Rightarrow> wgkey"

record 'ip map_session =
  ms_privateNodeKey :: wgkey
  ms_machinePubKey :: wgkey
  ms_keepSharerAndUserSplit :: bool
  ms_lastNode :: "'ip node option"
  ms_lastDNSConfig :: "'ip dns_config"
  ms_lastDERPMap :: "derp_map option"
  ms_lastUserProfile :: "int \<rightharpoonup> user_profile"
  ms_lastParsedPacketFilter :: "'ip match_rule list"
  ms_collectServices :: bool
  ms_previousPeers :: "'ip node list"
  ms_lastDomain :: string

definition newMapSession :: "wgkey \<Rightarrow> 'ip map_session" where
  "newMapSession privateNodeKey =
     \<lparr>ms_privateNodeKey = privateNodeKey, ms_machinePubKey = zero_key, ms_keepSharerAndUserSplit = False,
      ms_lastNode = None, ms_lastDNSConfig = zero_dns_config, ms_lastDERPMap = None,
      ms_lastUserProfile = Map.empty, ms_lastParsedPacketFilter = [], ms_collectServices = False,
      ms_previousPeers = [], ms_lastDomain = []\<rparr>"

definition addUserProfile :: "'ip map_session \<Rightarrow> int \<Rightarrow> 'ip network_map \<Rightarrow> 'ip network_map" where
  "addUserProfile ms userID nm =
     (case nm_UserProfiles nm userID of
        Some _ \<Rightarrow> nm
      | None \<Rightarrow> (case ms_lastUserProfile ms userID of
                  None \<Rightarrow> nm
                | Some up \<Rightarrow> nm\<lparr>nm_UserProfiles := (nm_UserProfiles nm)(userID \<mapsto> up)\<rparr>))"

section \<open>Completing the list of peers\<close>

fun nodesSorted :: "'ip node list \<Rightarrow> bool" where
  "nodesSorted (p # n # v) = (if n_ID n \<le> n_ID p then False else nodesSorted (n # v))"
| "nodesSorted _ = True"

definition sortNodes :: "'ip node list \<Rightarrow> 'ip node list" where
  "sortNodes v = sort_key n_ID v"

text \<open>The merge loop of \<^verbatim>\<open>undeltaPeers\<close>: the list built so far, and what is left of the two inputs.\<close>

fun merge_loop ::
  "(int \<Rightarrow> bool) \<Rightarrow> 'ip node list \<Rightarrow> 'ip node list \<Rightarrow> 'ip node list \<Rightarrow> 'ip node list \<times> 'ip node list \<times> 'ip node list" where
  "merge_loop removed (p # prev) (c # changed) newFull =
     (if removed (n_ID p) then merge_loop removed prev (c # changed) newFull
      else if n_ID p < n_ID c then merge_loop removed prev (c # changed) (newFull @ [p])
      else if n_ID p = n_ID c then merge_loop removed prev changed (newFull @ [c])
      else merge_loop removed (p # prev) changed (newFull @ [c]))"
| "merge_loop removed prev changed newFull = (newFull, prev, changed)"

fun append_kept :: "(int \<Rightarrow> bool) \<Rightarrow> 'ip node list \<Rightarrow> 'ip node list \<Rightarrow> 'ip node list" where
  "append_kept removed [] newFull = newFull"
| "append_kept removed (n # prev) newFull =
     append_kept removed prev (if \<not> removed (n_ID n) then newFull @ [n] else newFull)"

fun peer_by_id :: "'ip node list \<Rightarrow> nat \<Rightarrow> (int \<rightharpoonup> nat) \<Rightarrow> (int \<rightharpoonup> nat)" where
  "peer_by_id [] i m = m"
| "peer_by_id (n # ns) i m = peer_by_id ns (Suc i) (m(n_ID n \<mapsto> i))"

definition set_last_seen :: "gotime \<Rightarrow> bool \<Rightarrow> 'ip node \<Rightarrow> 'ip node" where
  "set_last_seen now seen n = n\<lparr>n_LastSeen := (if seen then Some now else None)\<rparr>"

definition set_online :: "bool \<Rightarrow> 'ip node \<Rightarrow> 'ip node" where
  "set_online online n = n\<lparr>n_Online := Some online\<rparr>"

text \<open>The two loops over the change maps; \<open>f\<close> changes one node.\<close>

fun change_loop ::
  "(int \<rightharpoonup> nat) \<Rightarrow> (bool \<Rightarrow> 'ip node \<Rightarrow> 'ip node) \<Rightarrow> (int \<times> bool) list \<Rightarrow> 'ip node list \<Rightarrow> 'ip node list" where
  "change_loop peerByID f [] ns = ns"
| "change_loop peerByID f ((nodeID, v) # cs) ns =
     change_loop peerByID f cs
       (case peerByID nodeID of Some i \<Rightarrow> ns[i := f v (ns ! i)] | None \<Rightarrow> ns)"

text \<open>The complete list of peers, before the changes of their state. \<^verbatim>\<open>make\<close> panics on a negative capacity.\<close>

definition full_peers :: "int list \<Rightarrow> 'ip node list \<Rightarrow> 'ip node list \<Rightarrow> 'ip node list option" where
  "full_peers pr changed prev =
     (let ids = remdups pr;
          removed = (\<lambda>i. i \<in> set ids);
          changed = (if \<not> nodesSorted changed then sortNodes changed else changed);
          prev = (if \<not> nodesSorted prev then sortNodes prev else prev)
      in if length ids > 0 \<or> length changed > 0
         then if length prev < length ids then None
              else let (newFull, prev, changed) = merge_loop removed prev changed []
                   in Some (sortNodes (append_kept removed prev (newFull @ changed)))
         else Some prev)"

definition mark_peers ::
  "gotime \<Rightarrow> (int \<times> bool) list \<Rightarrow> (int \<times> bool) list \<Rightarrow> 'ip node list \<Rightarrow> 'ip node list" where
  "mark_peers now seen online newFull =
     (if seen \<noteq> [] \<or> online \<noteq> []
      then let peerByID = peer_by_id newFull 0 Map.empty
           in change_loop peerByID set_online online (change_loop peerByID (set_last_seen now) seen newFull)
      else newFull)"

definition undeltaPeers ::
  "gotime \<Rightarrow> 'ip map_response \<Rightarrow> 'ip node list \<Rightarrow> 'ip map_response option" where
  "undeltaPeers now mapRes prev =
     (if length (mr_Peers mapRes) > 0
      then Some (if \<not> nodesSorted (mr_Peers mapRes) then mapRes\<lparr>mr_Peers := sortNodes (mr_Peers mapRes)\<rparr> else mapRes)
      else do {
        newFull \<leftarrow> full_peers (mr_PeersRemoved mapRes) (mr_PeersChanged mapRes) prev;
        let newFull = mark_peers now (mr_PeerSeenChange mapRes) (mr_OnlineChange mapRes) newFull;
        Some (mapRes\<lparr>mr_Peers := newFull, mr_PeersChanged := [], mr_PeersRemoved := []\<rparr>) })"

section \<open>Building the network map\<close>

definition filterSelfAddresses ::
  "'ip netaddr \<Rightarrow> 'ip map_env \<Rightarrow> 'ip ipprefix list option \<Rightarrow> 'ip ipprefix list option" where
  "filterSelfAddresses na env as =
     (if me_selfIPv6Only env
      then (case List.filter (\<lambda>a. na_Is6 na (pfx_IP a)) (elems as) of [] \<Rightarrow> None | r \<Rightarrow> Some r)
      else as)"

text \<open>\<^verbatim>\<open>privateNodeKey.Public()\<close> panics on the zero key.\<close>

definition session_public :: "'ip map_env \<Rightarrow> wgkey \<Rightarrow> wgkey option" where
  "session_public env k = (if Key_IsZero (Some k) then None else Some (me_Public env k))"

fun profiles_loop :: "user_profile list \<Rightarrow> (int \<rightharpoonup> user_profile) \<Rightarrow> (int \<rightharpoonup> user_profile)" where
  "profiles_loop [] m = m"
| "profiles_loop (up # ups) m = profiles_loop ups (m(up_ID up \<mapsto> up))"

text \<open>The loop over the peers: it completes their names and adds the profiles of their users.\<close>

fun peers_loop ::
  "'ip map_session \<Rightarrow> string \<Rightarrow> 'ip node list \<Rightarrow> 'ip node list \<Rightarrow> 'ip network_map \<Rightarrow> 'ip node list \<times> 'ip network_map" where
  "peers_loop ms sfx [] acc nm = (acc, nm)"
| "peers_loop ms sfx (p # ps) acc nm =
     (let peer = InitDisplayNames sfx p;
          (peer, nm) = (if n_Sharer peer \<noteq> 0
                        then if ms_keepSharerAndUserSplit ms then (peer, addUserProfile ms (n_Sharer peer) nm)
                             else (peer\<lparr>n_User := n_Sharer peer\<rparr>, nm)
                        else (peer, nm))
      in peers_loop ms sfx ps (acc @ [peer]) (addUserProfile ms (n_User peer) nm))"

text \<open>\<^verbatim>\<open>netmapForResponse\<close> in two parts: what the session keeps of the response, and the network map built
  from the session.\<close>

definition absorb ::
  "'ip netaddr \<Rightarrow> 'ip netaddr_parse \<Rightarrow> 'ip map_session \<Rightarrow> 'ip map_response \<Rightarrow> 'ip map_session" where
  "absorb na np ms resp =
     (let ms = ms\<lparr>ms_previousPeers := mr_Peers resp\<rparr>;
          ms = ms\<lparr>ms_lastUserProfile := profiles_loop (mr_UserProfiles resp) (ms_lastUserProfile ms)\<rparr>;
          ms = (case mr_DERPMap resp of None \<Rightarrow> ms | Some d \<Rightarrow> ms\<lparr>ms_lastDERPMap := Some d\<rparr>);
          ms = (case mr_PacketFilter resp of
                  None \<Rightarrow> ms
                | Some pf \<Rightarrow> ms\<lparr>ms_lastParsedPacketFilter := fst (MatchesFromFilterRules na np pf)\<rparr>);
          ms = (case mr_DNSConfig resp of None \<Rightarrow> ms | Some c \<Rightarrow> ms\<lparr>ms_lastDNSConfig := c\<rparr>);
          ms = (case Bool_Get (mr_CollectServices resp) of None \<Rightarrow> ms | Some v \<Rightarrow> ms\<lparr>ms_collectServices := v\<rparr>);
          ms = (if mr_Domain resp \<noteq> [] then ms\<lparr>ms_lastDomain := mr_Domain resp\<rparr> else ms)
      in ms)"

definition self_fields ::
  "'ip netaddr \<Rightarrow> 'ip map_env \<Rightarrow> 'ip node option \<Rightarrow> 'ip network_map \<Rightarrow> 'ip network_map" where
  "self_fields na env n nm =
     (case n of
        None \<Rightarrow> nm
      | Some node \<Rightarrow>
          nm\<lparr>nm_SelfNode := Some node, nm_Expiry := n_KeyExpiry node, nm_Name := n_Name node,
             nm_Addresses := filterSelfAddresses na env (n_Addresses node), nm_User := n_User node,
             nm_Hostinfo := n_Hostinfo node,
             nm_MachineStatus := (if n_MachineAuthorized node then MachineAuthorized else MachineUnauthorized)\<rparr>)"

definition legacy_dns :: "'ip map_env \<Rightarrow> 'ip map_response \<Rightarrow> 'ip dns_config \<Rightarrow> 'ip dns_config" where
  "legacy_dns env resp dns =
     (let dns = (if length (mr_DNS resp) > 0 then dns\<lparr>dc_Nameservers := mr_DNS resp\<rparr> else dns);
          dns = (if length (mr_SearchPaths resp) > 0 then dns\<lparr>dc_Domains := mr_SearchPaths resp\<rparr> else dns);
          dns = (if me_ProxyDNS env then dns\<lparr>dc_Proxied := True\<rparr> else dns)
      in dns)"

definition build_netmap ::
  "'ip netaddr \<Rightarrow> 'ip map_env \<Rightarrow> 'ip map_session \<Rightarrow> 'ip map_response \<Rightarrow> wgkey \<Rightarrow> 'ip map_session \<times> 'ip network_map" where
  "build_netmap na env ms resp pub =
     (let nm = zero_network_map\<lparr>nm_NodeKey := pub, nm_PrivateKey := ms_privateNodeKey ms,
                 nm_MachineKey := ms_machinePubKey ms, nm_Peers := mr_Peers resp, nm_Domain := ms_lastDomain ms,
                 nm_DNS := ms_lastDNSConfig ms, nm_PacketFilter := ms_lastParsedPacketFilter ms,
                 nm_CollectServices := ms_collectServices ms, nm_DERPMap := ms_lastDERPMap ms,
                 nm_Debug := mr_Debug resp\<rparr>;
          ms = (case mr_Node resp of None \<Rightarrow> ms | Some n \<Rightarrow> ms\<lparr>ms_lastNode := Some n\<rparr>);
          nm = self_fields na env (ms_lastNode ms) nm;
          nm = addUserProfile ms (nm_User nm) nm;
          sfx = MagicDNSSuffix nm;
          nm = nm\<lparr>nm_SelfNode := map_option (InitDisplayNames sfx) (nm_SelfNode nm)\<rparr>;
          (peers, nm) = peers_loop ms sfx (mr_Peers resp) [] nm;
          nm = nm\<lparr>nm_Peers := peers\<rparr>;
          nm = nm\<lparr>nm_DNS := legacy_dns env resp (nm_DNS nm)\<rparr>
      in (ms, nm))"

definition netmapForResponse ::
  "'ip netaddr \<Rightarrow> 'ip netaddr_parse \<Rightarrow> 'ip map_env \<Rightarrow> 'ip map_session \<Rightarrow> 'ip map_response \<Rightarrow>
   ('ip map_session \<times> 'ip network_map) option" where
  "netmapForResponse na np env ms resp =
     do { resp \<leftarrow> undeltaPeers (me_clockNow env) resp (ms_previousPeers ms);
          let ms = absorb na np ms resp;
          pub \<leftarrow> session_public env (ms_privateNodeKey ms);
          Some (build_netmap na env ms resp pub) }"

section \<open>The list of peers as a map\<close>

lemma nodesSorted_iff: "nodesSorted v \<longleftrightarrow> sorted_nodes v"
  by (induction v rule: nodesSorted.induct) (auto simp: sorted_wrt2 [OF transp_on_less])

abbreviation sort_if_needed :: "'ip node list \<Rightarrow> 'ip node list" where
  "sort_if_needed v \<equiv> (if \<not> nodesSorted v then sortNodes v else v)"

lemma sorted_sortNodes: "distinct (map n_ID v) \<Longrightarrow> sorted_nodes (sortNodes v)"
  by (simp add: sortNodes_def strict_sorted_iff distinct_map)

lemma sort_if_needed:
  assumes "distinct (map n_ID v)"
  shows "sorted_nodes (sort_if_needed v)" "set (sort_if_needed v) = set v"
  using sorted_sortNodes [OF assms] by (auto simp: nodesSorted_iff sortNodes_def)

lemma append_kept_eq: "append_kept removed prev nf = nf @ List.filter (\<lambda>n. \<not> removed (n_ID n)) prev"
  by (induction prev arbitrary: nf) auto

lemma filter_cong_ids:
  "\<forall>n \<in> set xs. c < n_ID n \<Longrightarrow>
   List.filter (\<lambda>n. P n \<and> n_ID n \<noteq> c \<and> n_ID n \<notin> S) xs = List.filter (\<lambda>n. P n \<and> n_ID n \<notin> S) xs"
  by (rule filter_cong) auto

lemma mset_merge_loop:
  "sorted_nodes prev \<Longrightarrow> sorted_nodes changed \<Longrightarrow> merge_loop removed prev changed nf = (nf', prev', changed') \<Longrightarrow>
   mset (append_kept removed prev' (nf' @ changed')) = mset (nf @ changed @
     List.filter (\<lambda>n. \<not> removed (n_ID n) \<and> n_ID n \<notin> n_ID ` set changed) prev)"
proof (induction removed prev changed nf rule: merge_loop.induct)
  case (1 removed p prev c changed nf)
  then have lt: "\<forall>n \<in> set prev. n_ID p < n_ID n" "\<forall>n \<in> set changed. n_ID c < n_ID n" by auto
  consider "removed (n_ID p)" | "\<not> removed (n_ID p)" "n_ID p < n_ID c"
    | "\<not> removed (n_ID p)" "n_ID p = n_ID c" | "\<not> removed (n_ID p)" "n_ID c < n_ID p" by linarith
  then show ?case
  proof cases
    case 1
    with "1.IH"(1) "1.prems" show ?thesis by simp
  next
    case 2
    with lt(2) have "n_ID p \<notin> n_ID ` set (c # changed)" by fastforce
    with 2 "1.IH"(2) "1.prems" show ?thesis by simp
  next
    case 3
    with "1.IH"(3) "1.prems" lt(1) show ?thesis by (simp add: filter_cong_ids)
  next
    case 4
    with lt(1) have "\<forall>n \<in> set (p # prev). n_ID c < n_ID n" by fastforce
    with 4 "1.IH"(4) "1.prems" show ?thesis by (simp add: filter_cong_ids del: mset_filter)
  qed
qed (simp_all add: append_kept_eq)

text \<open>What a response does to the peers, as a map from IDs to nodes.\<close>

definition apply_change :: "(bool \<Rightarrow> 'ip node \<Rightarrow> 'ip node) \<Rightarrow> (int \<times> bool) list \<Rightarrow> 'ip node \<Rightarrow> 'ip node" where
  "apply_change f cs n = (case map_of cs (n_ID n) of None \<Rightarrow> n | Some v \<Rightarrow> f v n)"

definition spec_peers :: "gotime \<Rightarrow> 'ip map_response \<Rightarrow> (int \<rightharpoonup> 'ip node) \<Rightarrow> (int \<rightharpoonup> 'ip node)" where
  "spec_peers now r m =
     (if mr_Peers r \<noteq> [] then peer_map (mr_Peers r)
      else map_option (\<lambda>n. apply_change set_online (mr_OnlineChange r) (apply_change (set_last_seen now) (mr_PeerSeenChange r) n))
        \<circ> (m |` (- set (mr_PeersRemoved r)) ++ peer_map (mr_PeersChanged r)))"

definition wf_response :: "'ip map_response \<Rightarrow> bool" where
  "wf_response r \<longleftrightarrow> distinct (map n_ID (mr_Peers r)) \<and> distinct (map n_ID (mr_PeersChanged r)) \<and>
     distinct (map fst (mr_PeerSeenChange r)) \<and> distinct (map fst (mr_OnlineChange r))"

lemma peer_by_id_eq:
  "distinct (map n_ID ns) \<Longrightarrow>
   peer_by_id ns k m i = (if i \<in> n_ID ` set ns then Some (k + length (takeWhile (\<lambda>n. n_ID n \<noteq> i) ns)) else m i)"
  by (induction ns arbitrary: k m) auto

lemma list_update_by_id:
  assumes "distinct (map n_ID ns)" "i \<in> n_ID ` set ns" "j = length (takeWhile (\<lambda>n. n_ID n \<noteq> i) ns)"
  shows "ns[j := f (ns ! j)] = map (\<lambda>n. if n_ID n = i then f n else n) ns"
  using assms
proof (induction ns arbitrary: j)
  case (Cons n ns)
  show ?case
  proof (cases "n_ID n = i")
    case True
    with Cons.prems(1) have "\<forall>x \<in> set ns. n_ID x \<noteq> i" by (auto simp: image_iff)
    then have "map (\<lambda>n. if n_ID n = i then f n else n) ns = ns" by (intro map_idI) simp
    with True Cons.prems show ?thesis by simp
  next
    case False
    with Cons show ?thesis by simp
  qed
qed simp

lemma change_loop_eq:
  assumes f: "\<And>v n. n_ID (f v n) = n_ID n" and ids: "distinct ids"
    and look: "\<And>(ms :: 'ip node list) i. map n_ID ms = ids \<Longrightarrow>
      pb i = (if i \<in> set ids then Some (length (takeWhile (\<lambda>n. n_ID n \<noteq> i) ms)) else None)"
  shows "map n_ID (ns :: 'ip node list) = ids \<Longrightarrow> distinct (map fst cs) \<Longrightarrow> change_loop pb f cs ns = map (apply_change f cs) ns"
proof (induction cs arbitrary: ns)
  case Nil
  then show ?case by (simp add: apply_change_def)
next
  case (Cons c cs)
  obtain i v where c: "c = (i, v)" by force
  let ?g = "\<lambda>n. if n_ID n = i then f v n else n"
  have step: "(case pb i of Some j \<Rightarrow> ns[j := f v (ns ! j)] | None \<Rightarrow> ns) = map ?g ns"
  proof (cases "i \<in> n_ID ` set ns")
    case True
    then show ?thesis using look [OF Cons.prems(1), of i] Cons.prems(1) ids list_update_by_id [of ns i _ "f v"] by auto
  next
    case False
    then have "map ?g ns = ns" by (intro map_idI) auto
    with False show ?thesis using look [OF Cons.prems(1), of i] Cons.prems(1) by auto
  qed
  have "map n_ID (map ?g ns) = ids" using Cons.prems(1) f by (auto cong: map_cong)
  then have "change_loop pb f (c # cs) ns = map (apply_change f cs) (map ?g ns)"
    using Cons by (simp add: c step)
  also have "\<dots> = map (apply_change f (c # cs)) ns"
    using Cons.prems(2) f by (auto simp: c apply_change_def map_of_eq_None_iff [symmetric] split: option.split)
  finally show ?case .
qed

lemma peer_map_map:
  "(\<And>n. n_ID (g n) = n_ID n) \<Longrightarrow> peer_map (map g ns) = map_option g \<circ> peer_map ns"
  by (induction ns) auto

lemma apply_change_id: "(\<And>v n. n_ID (f v n) = n_ID n) \<Longrightarrow> n_ID (apply_change f cs n) = n_ID n"
  by (auto simp: apply_change_def split: option.split)

lemma change_id [simp]: "n_ID (set_last_seen now v n) = n_ID n" "n_ID (set_online v n) = n_ID n"
  by (simp_all add: set_last_seen_def set_online_def)

lemma merged_peers:
  assumes prev: "sorted_nodes prev" and ch: "sorted_nodes changed"
    and ml: "merge_loop removed prev changed [] = (nf, prev', changed')"
  shows "sorted_nodes (sortNodes (append_kept removed prev' (nf @ changed')))"
    "peer_map (sortNodes (append_kept removed prev' (nf @ changed'))) =
       peer_map prev |` (- Collect removed) ++ peer_map changed"
proof -
  let ?full = "append_kept removed prev' (nf @ changed')"
  let ?kept = "List.filter (\<lambda>n. \<not> removed (n_ID n) \<and> n_ID n \<notin> n_ID ` set changed) prev"
  have ms: "mset ?full = mset (changed @ ?kept)" using mset_merge_loop [OF prev ch ml] by simp
  note dp = sorted_nodes_distinct [OF prev] and dc = sorted_nodes_distinct [OF ch]
  have "x \<notin> n_ID ` set changed" if "x \<in> n_ID ` set ?kept" for x using that by (elim imageE) simp
  then have "n_ID ` set changed \<inter> n_ID ` set ?kept = {}" by blast
  then have "distinct (map n_ID (changed @ ?kept))" using dp dc by (simp add: distinct_map_filter)
  moreover have "mset (map n_ID ?full) = mset (map n_ID (changed @ ?kept))" using ms by (simp only: mset_map)
  ultimately have df: "distinct (map n_ID ?full)" using mset_eq_imp_distinct_iff by blast
  then show "sorted_nodes (sortNodes ?full)" by (rule sorted_sortNodes)
  have st: "set (sortNodes ?full) = set changed \<union> set ?kept"
    using mset_eq_setD [OF ms] by (simp add: sortNodes_def)
  have d: "distinct (map n_ID (sortNodes ?full))" using sorted_sortNodes [OF df] by (rule sorted_nodes_distinct)
  show "peer_map (sortNodes ?full) = peer_map prev |` (- Collect removed) ++ peer_map changed"
  proof
    fix i
    have "peer_map (sortNodes ?full) i = Some n \<longleftrightarrow> (peer_map prev |` (- Collect removed) ++ peer_map changed) i = Some n" for n
      unfolding peer_map_Some [OF d] st map_add_Some_iff peer_map_Some [OF dc] peer_map_None
      by (auto simp: restrict_map_def peer_map_Some [OF dp])
    then show "peer_map (sortNodes ?full) i = (peer_map prev |` (- Collect removed) ++ peer_map changed) i"
      by (rule option_eqI)
  qed
qed

lemma mark_peers_spec:
  assumes "sorted_nodes ns" "distinct (map fst seen)" "distinct (map fst online)"
  shows "sorted_nodes (mark_peers now seen online ns)"
    "peer_map (mark_peers now seen online ns) =
       map_option (\<lambda>n. apply_change set_online online (apply_change (set_last_seen now) seen n)) \<circ> peer_map ns"
proof -
  let ?pb = "peer_by_id ns 0 Map.empty"
  have d: "distinct (map n_ID ns)" using assms(1) by (rule sorted_nodes_distinct)
  have tw: "length (takeWhile (\<lambda>n. n_ID n \<noteq> i) a) = length (takeWhile (\<lambda>n. n_ID n \<noteq> i) b)"
    if "map n_ID a = map n_ID b" for a b :: "'a node list" and i
    using that by (induction a b rule: list_induct2') auto
  have look: "?pb i = (if i \<in> set (map n_ID ns) then Some (length (takeWhile (\<lambda>n. n_ID n \<noteq> i) ms)) else None)"
    if "map n_ID ms = map n_ID ns" for ms :: "'a node list" and i
    using tw [OF that] by (simp add: peer_by_id_eq [OF d])
  have "mark_peers now seen online ns = change_loop ?pb set_online online (change_loop ?pb (set_last_seen now) seen ns)"
    by (auto simp: mark_peers_def Let_def)
  then have eq: "mark_peers now seen online ns = map (\<lambda>n. apply_change set_online online (apply_change (set_last_seen now) seen n)) ns"
    using change_loop_eq [OF _ d look, of "set_last_seen now" ns seen] assms(2)
      change_loop_eq [OF _ d look, of set_online "map (apply_change (set_last_seen now) seen) ns" online] assms(3)
    by (simp add: apply_change_id)
  show "sorted_nodes (mark_peers now seen online ns)"
    using assms(1) by (simp add: eq sorted_wrt_map apply_change_id)
  show "peer_map (mark_peers now seen online ns) = map_option (\<lambda>n. apply_change set_online online (apply_change (set_last_seen now) seen n)) \<circ> peer_map ns"
    unfolding eq by (rule peer_map_map) (simp add: apply_change_id)
qed

lemma full_peers_spec:
  assumes prev: "sorted_nodes prev" and dc: "distinct (map n_ID changed)"
  shows "case full_peers pr changed prev of
      None \<Rightarrow> length prev < card (set pr)
    | Some ns \<Rightarrow> (card (set pr) \<le> length prev) \<and> sorted_nodes ns \<and>
        peer_map ns = peer_map prev |` (- set pr) ++ peer_map changed"
proof -
  let ?rm = "\<lambda>i. i \<in> set (remdups pr)"
  let ?ch = "sort_if_needed changed"
  note ch = sort_if_needed [OF dc]
  have pc: "peer_map ?ch = peer_map changed"
    using peer_map_eqI [OF sorted_nodes_distinct [OF ch(1)] dc ch(2)] .
  have rm: "Collect ?rm = set pr" by auto
  have ps: "sort_if_needed prev = prev" using prev by (simp add: nodesSorted_iff)
  have len: "length (remdups pr) = card (set pr)" by (simp add: length_remdups_card_conv)
  show ?thesis
  proof (cases "pr = [] \<and> ?ch = []")
    case True
    then have c: "changed = []" using ch(2) by simp
    have "full_peers pr changed prev = Some prev" using True unfolding full_peers_def Let_def ps by simp
    with True prev c show ?thesis by (simp add: restrict_map_def)
  next
    case False
    obtain nf p' c' where ml: "merge_loop ?rm prev ?ch [] = (nf, p', c')" by (metis prod_cases3)
    have ne: "card (set pr) > 0 \<or> length ?ch > 0" using False by (auto simp: card_gt_0_iff)
    have "full_peers pr changed prev =
        (if length prev < card (set pr) then None else Some (sortNodes (append_kept ?rm p' (nf @ c'))))"
      unfolding full_peers_def Let_def ps ml prod.case if_P [OF ne] len by (rule refl)
    with merged_peers [OF prev ch(1) ml, unfolded rm pc] show ?thesis by auto
  qed
qed

lemma undeltaPeers_spec:
  assumes prev: "sorted_nodes prev" and r: "wf_response r"
  shows "case undeltaPeers now r prev of
      None \<Rightarrow> mr_Peers r = [] \<and> length prev < card (set (mr_PeersRemoved r))
    | Some r' \<Rightarrow> (mr_Peers r \<noteq> [] \<or> card (set (mr_PeersRemoved r)) \<le> length prev) \<and>
        sorted_nodes (mr_Peers r') \<and> peer_map (mr_Peers r') = spec_peers now r (peer_map prev)"
proof (cases "mr_Peers r = []")
  case False
  let ?r = "if \<not> nodesSorted (mr_Peers r) then r\<lparr>mr_Peers := sortNodes (mr_Peers r)\<rparr> else r"
  have d: "distinct (map n_ID (mr_Peers r))" using r by (simp add: wf_response_def)
  have p: "mr_Peers ?r = sort_if_needed (mr_Peers r)" by simp
  have "sorted_nodes (mr_Peers ?r)" unfolding p by (rule sort_if_needed(1) [OF d])
  moreover have "peer_map (mr_Peers ?r) = peer_map (mr_Peers r)"
    unfolding p by (rule peer_map_eqI [OF sorted_nodes_distinct [OF sort_if_needed(1) [OF d]] d sort_if_needed(2) [OF d]])
  ultimately show ?thesis using False by (simp add: undeltaPeers_def spec_peers_def)
next
  case True
  have dc: "distinct (map n_ID (mr_PeersChanged r))" and ds: "distinct (map fst (mr_PeerSeenChange r))"
    and do: "distinct (map fst (mr_OnlineChange r))" using r by (simp_all add: wf_response_def)
  show ?thesis
  proof (cases "full_peers (mr_PeersRemoved r) (mr_PeersChanged r) prev")
    case None
    with full_peers_spec [OF prev dc, of "mr_PeersRemoved r"] True show ?thesis by (simp add: undeltaPeers_def)
  next
    case (Some ns)
    with full_peers_spec [OF prev dc, of "mr_PeersRemoved r"] mark_peers_spec [OF _ ds do, of ns now] True
    show ?thesis by (simp add: undeltaPeers_def spec_peers_def)
  qed
qed

section \<open>Sessions\<close>

text \<open>The last value that a list of responses has for a field.\<close>

definition latest :: "('r \<Rightarrow> 'x option) \<Rightarrow> 'r list \<Rightarrow> 'x option" where
  "latest f rs = fold (\<lambda>r acc. case f r of None \<Rightarrow> acc | Some x \<Rightarrow> Some x) rs None"

lemma latest_snoc [simp]: "latest f (rs @ [r]) = (case f r of None \<Rightarrow> latest f rs | Some x \<Rightarrow> Some x)"
  by (simp add: latest_def split: option.split)

lemma latest_Nil [simp]: "latest f [] = None"
  by (simp add: latest_def)

text \<open>How a peer of the session appears in the network map.\<close>

definition finish :: "'ip map_session \<Rightarrow> string \<Rightarrow> 'ip node \<Rightarrow> 'ip node" where
  "finish ms sfx p =
     (let p = InitDisplayNames sfx p
      in if n_Sharer p \<noteq> 0 \<and> \<not> ms_keepSharerAndUserSplit ms then p\<lparr>n_User := n_Sharer p\<rparr> else p)"

text \<open>The fields of a network map that user profiles do not touch.\<close>

definition same_base :: "'ip network_map \<Rightarrow> 'ip network_map \<Rightarrow> bool" where
  "same_base a b \<longleftrightarrow> nm_DERPMap a = nm_DERPMap b \<and> nm_PacketFilter a = nm_PacketFilter b \<and>
     nm_Domain a = nm_Domain b \<and> nm_SelfNode a = nm_SelfNode b \<and> nm_NodeKey a = nm_NodeKey b"

lemma same_base_addUserProfile [simp]: "same_base (addUserProfile ms i nm) b \<longleftrightarrow> same_base nm b"
  by (simp add: same_base_def addUserProfile_def split: option.split)

lemma same_base_refl [simp]: "same_base a a"
  by (simp add: same_base_def)

lemma peers_loop_spec:
  "fst (peers_loop ms sfx ps acc nm) = acc @ map (finish ms sfx) ps \<and> same_base (snd (peers_loop ms sfx ps acc nm)) b = same_base nm b"
  by (induction ps arbitrary: acc nm) (simp_all add: finish_def Let_def)

lemma absorb_fields:
  "ms_previousPeers (absorb na np ms r) = mr_Peers r"
  "ms_lastDERPMap (absorb na np ms r) = (case mr_DERPMap r of None \<Rightarrow> ms_lastDERPMap ms | Some d \<Rightarrow> Some d)"
  "ms_lastParsedPacketFilter (absorb na np ms r) = (case mr_PacketFilter r of None \<Rightarrow> ms_lastParsedPacketFilter ms
     | Some pf \<Rightarrow> fst (MatchesFromFilterRules na np pf))"
  "ms_lastDomain (absorb na np ms r) = (if mr_Domain r = [] then ms_lastDomain ms else mr_Domain r)"
  "ms_lastNode (absorb na np ms r) = ms_lastNode ms"
  "ms_privateNodeKey (absorb na np ms r) = ms_privateNodeKey ms"
  by (simp_all add: absorb_def Let_def split: option.split)

lemma self_fields_base:
  "nm_DERPMap (self_fields na env n nm) = nm_DERPMap nm" "nm_PacketFilter (self_fields na env n nm) = nm_PacketFilter nm"
  "nm_Domain (self_fields na env n nm) = nm_Domain nm" "nm_NodeKey (self_fields na env n nm) = nm_NodeKey nm"
  "nm_SelfNode (self_fields na env n nm) = (case n of None \<Rightarrow> nm_SelfNode nm | Some node \<Rightarrow> Some node)"
  by (simp_all add: self_fields_def split: option.split)

lemma build_netmap_fields:
  assumes "build_netmap na env ms r pub = (ms', nm)"
  shows "ms' = (case mr_Node r of None \<Rightarrow> ms | Some n \<Rightarrow> ms\<lparr>ms_lastNode := Some n\<rparr>)"
    "nm_DERPMap nm = ms_lastDERPMap ms" "nm_PacketFilter nm = ms_lastParsedPacketFilter ms" "nm_Domain nm = ms_lastDomain ms"
    "nm_NodeKey nm = pub"
    "\<exists>sfx. nm_Peers nm = map (finish ms' sfx) (mr_Peers r) \<and> nm_SelfNode nm = map_option (InitDisplayNames sfx) (ms_lastNode ms')"
proof -
  let ?ms = "case mr_Node r of None \<Rightarrow> ms | Some n \<Rightarrow> ms\<lparr>ms_lastNode := Some n\<rparr>"
  let ?z = "zero_network_map\<lparr>nm_NodeKey := pub, nm_PrivateKey := ms_privateNodeKey ms,
                 nm_MachineKey := ms_machinePubKey ms, nm_Peers := mr_Peers r, nm_Domain := ms_lastDomain ms,
                 nm_DNS := ms_lastDNSConfig ms, nm_PacketFilter := ms_lastParsedPacketFilter ms,
                 nm_CollectServices := ms_collectServices ms, nm_DERPMap := ms_lastDERPMap ms, nm_Debug := mr_Debug r\<rparr>"
  let ?u = "addUserProfile ?ms (nm_User (self_fields na env (ms_lastNode ?ms) ?z)) (self_fields na env (ms_lastNode ?ms) ?z)"
  define sfx where "sfx = MagicDNSSuffix ?u"
  define w where "w = ?u\<lparr>nm_SelfNode := map_option (InitDisplayNames sfx) (nm_SelfNode ?u)\<rparr>"
  define l where "l = peers_loop ?ms sfx (mr_Peers r) [] w"
  have eq: "build_netmap na env ms r pub = (?ms, (snd l)\<lparr>nm_Peers := fst l, nm_DNS := legacy_dns env r (nm_DNS (snd l))\<rparr>)"
    unfolding build_netmap_def Let_def sfx_def [symmetric] w_def [symmetric] l_def [symmetric]
    by (simp add: case_prod_unfold)
  have l: "fst l = map (finish ?ms sfx) (mr_Peers r)" "same_base (snd l) w"
    using peers_loop_spec [of ?ms sfx "mr_Peers r" "[]" w w] by (simp_all add: l_def)
  have u: "same_base ?u (self_fields na env (ms_lastNode ?ms) ?z)"
    by (simp only: same_base_addUserProfile same_base_refl)
  have z: "nm_SelfNode ?z = None" by (simp add: zero_network_map_def)
  show "ms' = ?ms" using assms eq by simp
  then show "nm_DERPMap nm = ms_lastDERPMap ms" "nm_PacketFilter nm = ms_lastParsedPacketFilter ms"
    "nm_Domain nm = ms_lastDomain ms" "nm_NodeKey nm = pub"
    "\<exists>sfx. nm_Peers nm = map (finish ms' sfx) (mr_Peers r) \<and> nm_SelfNode nm = map_option (InitDisplayNames sfx) (ms_lastNode ms')"
    using assms eq l u z by (auto simp: same_base_def self_fields_base w_def split: option.splits intro!: exI [of _ sfx])
qed

text \<open>A session: each response is handled with the environment of its moment. The last network map is kept.\<close>

fun run_session ::
  "'ip netaddr \<Rightarrow> 'ip netaddr_parse \<Rightarrow> 'ip map_session \<Rightarrow> 'ip network_map \<Rightarrow> ('ip map_env \<times> 'ip map_response) list \<Rightarrow>
   ('ip map_session \<times> 'ip network_map) option" where
  "run_session na np ms nm [] = Some (ms, nm)"
| "run_session na np ms nm ((env, r) # rs) =
     do { (ms, nm) \<leftarrow> netmapForResponse na np env ms r; run_session na np ms nm rs }"

definition session_inv ::
  "'ip netaddr \<Rightarrow> 'ip netaddr_parse \<Rightarrow> wgkey \<Rightarrow> ('ip map_env \<times> 'ip map_response) list \<Rightarrow> 'ip map_session \<Rightarrow> bool" where
  "session_inv na np k rs ms \<longleftrightarrow>
     ms_privateNodeKey ms = k \<and> sorted_nodes (ms_previousPeers ms) \<and>
     peer_map (ms_previousPeers ms) = fold (\<lambda>(env, r). spec_peers (me_clockNow env) r) rs Map.empty \<and>
     ms_lastNode ms = latest (mr_Node \<circ> snd) rs \<and> ms_lastDERPMap ms = latest (mr_DERPMap \<circ> snd) rs \<and>
     ms_lastParsedPacketFilter ms = (case latest (mr_PacketFilter \<circ> snd) rs of None \<Rightarrow> [] | Some pf \<Rightarrow> fst (MatchesFromFilterRules na np pf))"

definition session_map :: "'ip map_session \<Rightarrow> 'ip network_map \<Rightarrow> bool" where
  "session_map ms nm \<longleftrightarrow> nm_DERPMap nm = ms_lastDERPMap ms \<and> nm_PacketFilter nm = ms_lastParsedPacketFilter ms \<and>
     (\<exists>sfx. nm_Peers nm = map (finish ms sfx) (ms_previousPeers ms) \<and>
       nm_SelfNode nm = map_option (InitDisplayNames sfx) (ms_lastNode ms))"

lemma finish_lastNode [simp]: "finish (ms\<lparr>ms_lastNode := n\<rparr>) = finish ms"
  by (simp add: finish_def fun_eq_iff)

lemma undeltaPeers_keeps:
  "undeltaPeers now r prev = Some r' \<Longrightarrow> mr_Node r' = mr_Node r \<and> mr_DERPMap r' = mr_DERPMap r \<and> mr_PacketFilter r' = mr_PacketFilter r"
  by (auto simp: undeltaPeers_def Let_def split: if_splits Option.bind_splits)

lemma session_step:
  assumes "netmapForResponse na np env ms r = Some (ms', nm)" "session_inv na np k rs ms" "wf_response r"
  shows "session_inv na np k (rs @ [(env, r)]) ms' \<and> session_map ms' nm"
proof -
  obtain r' pub where r': "undeltaPeers (me_clockNow env) r (ms_previousPeers ms) = Some r'"
    and b: "build_netmap na env (absorb na np ms r') r' pub = (ms', nm)"
    using assms(1) by (auto simp: netmapForResponse_def Let_def split: Option.bind_splits)
  have u: "sorted_nodes (mr_Peers r')" "peer_map (mr_Peers r') = spec_peers (me_clockNow env) r (peer_map (ms_previousPeers ms))"
    using undeltaPeers_spec [of "ms_previousPeers ms" r "me_clockNow env"] assms(2,3) r' by (auto simp: session_inv_def)
  note f = build_netmap_fields [OF b] and k = undeltaPeers_keeps [OF r']
  have p: "ms_previousPeers ms' = mr_Peers r'" "ms_lastNode ms' = (case mr_Node r of None \<Rightarrow> ms_lastNode ms | Some n \<Rightarrow> Some n)"
    "ms_lastDERPMap ms' = ms_lastDERPMap (absorb na np ms r')" "ms_privateNodeKey ms' = ms_privateNodeKey ms"
    "ms_lastParsedPacketFilter ms' = ms_lastParsedPacketFilter (absorb na np ms r')"
    unfolding f(1) using k by (simp_all add: absorb_fields split: option.split)
  have "session_map ms' nm" unfolding session_map_def p(1) using f p by simp
  moreover have "session_inv na np k (rs @ [(env, r)]) ms'"
    using assms(2) u p k by (auto simp: session_inv_def absorb_fields comp_def split: option.splits)
  ultimately show ?thesis by simp
qed

lemma run_session_inv:
  "run_session na np ms nm rs = Some (ms', nm') \<Longrightarrow> session_inv na np k done ms \<Longrightarrow> \<forall>(env, r) \<in> set rs. wf_response r \<Longrightarrow>
   session_inv na np k (done @ rs) ms' \<and> (rs \<noteq> [] \<longrightarrow> session_map ms' nm')"
proof (induction rs arbitrary: ms nm "done")
  case (Cons x rs)
  obtain env r where x: "x = (env, r)" by force
  with Cons.prems(1) obtain ms1 nm1 where n: "netmapForResponse na np env ms r = Some (ms1, nm1)"
    and rest: "run_session na np ms1 nm1 rs = Some (ms', nm')"
    by (auto split: Option.bind_splits)
  have s: "session_inv na np k (done @ [(env, r)]) ms1 \<and> session_map ms1 nm1"
    using session_step [OF n Cons.prems(2)] Cons.prems(3) by (simp add: x)
  show ?case
    using Cons.IH [OF rest conjunct1 [OF s]] Cons.prems(3) s rest by (cases rs) (auto simp: x)
qed simp

text \<open>
  C3. A map session reconstructs the network map from incremental responses. After any sequence of responses
  from the start of a session, the peers are sorted by ID and are, as a map from IDs to nodes, those that the
  responses define one after the other: a full list replaces them, removed peers are dropped, changed peers are
  added or replaced, and the changes of their state are applied. The self node, the DERP map and the packet
  filter of the last network map are those of the last response that had one.
\<close>

theorem session_reconstructs:
  assumes "run_session na np (newMapSession k) nm0 rs = Some (ms, nm)" "rs \<noteq> []"
    and "\<forall>(env, r) \<in> set rs. wf_response r"
  shows "\<exists>peers sfx. sorted_nodes peers \<and>
      peer_map peers = fold (\<lambda>(env, r). spec_peers (me_clockNow env) r) rs Map.empty \<and>
      nm_Peers nm = map (finish ms sfx) peers \<and>
      nm_SelfNode nm = map_option (InitDisplayNames sfx) (latest (mr_Node \<circ> snd) rs) \<and>
      nm_DERPMap nm = latest (mr_DERPMap \<circ> snd) rs \<and>
      nm_PacketFilter nm = (case latest (mr_PacketFilter \<circ> snd) rs of None \<Rightarrow> []
        | Some pf \<Rightarrow> fst (MatchesFromFilterRules na np pf))"
proof -
  have "session_inv na np k [] (newMapSession k)" by (simp add: session_inv_def newMapSession_def)
  from run_session_inv [OF assms(1) this assms(3)] assms(2)
  have "session_inv na np k rs ms" "session_map ms nm" by simp_all
  then show ?thesis unfolding session_inv_def session_map_def by auto
qed

text \<open>A session of two responses: a full list of two peers, and a change that removes one and adds another.\<close>

definition sample_env :: "addr map_env" where
  "sample_env = \<lparr>me_clockNow = zero_time, me_selfIPv6Only = False, me_ProxyDNS = False, me_Public = (\<lambda>k. k)\<rparr>"

definition sample_parse :: "addr netaddr_parse" where
  "sample_parse = \<lparr>np_ParseIP = (\<lambda>_. None), np_ParseIPPrefix = (\<lambda>_. None), np_Masked = (\<lambda>p. p),
     np_RangeValid = (\<lambda>_ _. False), np_RangePrefixes = (\<lambda>_ _. [])\<rparr>"

definition sample_session :: "(addr map_env \<times> addr map_response) list" where
  "sample_session =
     [(sample_env, zero_map_response\<lparr>mr_Peers := [zero_node\<lparr>n_ID := 1\<rparr>, zero_node\<lparr>n_ID := 2\<rparr>]\<rparr>),
      (sample_env, zero_map_response\<lparr>mr_PeersRemoved := [1], mr_PeersChanged := [zero_node\<lparr>n_ID := 3\<rparr>],
         mr_OnlineChange := [(2, True)]\<rparr>)]"

theorem session_reconstructs_witness:
  "\<exists>ms nm. run_session addr_netaddr sample_parse (newMapSession (replicate 32 1)) zero_network_map sample_session = Some (ms, nm) \<and>
     (\<exists>peers sfx. sorted_nodes peers \<and> nm_Peers nm = map (finish ms sfx) peers \<and>
        peer_map peers 1 = None \<and> peer_map peers 3 \<noteq> None \<and> map_option n_Online (peer_map peers 2) = Some (Some True))"
proof -
  let ?run = "run_session addr_netaddr sample_parse (newMapSession (replicate 32 1)) zero_network_map sample_session"
  have "\<not> Option.is_none ?run" by code_simp
  then obtain ms nm where run: "?run = Some (ms, nm)" by (auto simp: Option.is_none_def)
  let ?m = "fold (\<lambda>(env, r). spec_peers (me_clockNow env) r) sample_session Map.empty"
  have wf: "\<forall>(env, r) \<in> set sample_session. wf_response r"
    by (simp add: sample_session_def wf_response_def zero_map_response_def)
  have m: "?m 1 = None" "?m 3 \<noteq> None" "map_option n_Online (?m 2) = Some (Some True)"
    by (simp_all add: sample_session_def spec_peers_def zero_map_response_def apply_change_def set_online_def map_add_def)
  obtain peers sfx where "sorted_nodes peers" "peer_map peers = ?m" "nm_Peers nm = map (finish ms sfx) peers"
    using session_reconstructs [OF run _ wf] by (auto simp: sample_session_def)
  then have "peer_map peers 1 = None \<and> peer_map peers 3 \<noteq> None \<and> map_option n_Online (peer_map peers 2) = Some (Some True)"
    using m by (simp only: simp_thms)
  then show ?thesis using run \<open>sorted_nodes peers\<close> \<open>nm_Peers nm = map (finish ms sfx) peers\<close> by blast
qed



end
