(* ===== verification/Tstun.thy ===== *)
theory Tstun
  imports Pktfilter Tsmp
begin

text \<open>
  The TUN device wrapper, \<^verbatim>\<open>net/tstun/wrap.go\<close> with the write path of \<^verbatim>\<open>net/tstun/tap_linux.go\<close>: the packet
  filters on both directions, the injection of packets, and the reading and writing of the device.

  The constants of wireguard-go and the outcome of writes to the underlying device are the record
  \<open>tun_env\<close>, an argument. The filter hooks of the wrapper are functions on the state of the program,
  which extends the state \<open>tun\<close> of the wrapper: they are the record \<open>tun_hooks\<close>. A packet that waits in
  \<^verbatim>\<open>t.outbound\<close> and lies in \<^verbatim>\<open>t.buffer\<close> is \<open>DevPkt n\<close>, so that its contents are those of the buffer when it
  is read, and not when it was queued.
\<close>

section \<open>State\<close>

record tun_env =
  te_MessageTransportHeaderSize :: nat
  te_MaxContentSize :: nat
  te_dev_write :: "bytes \<Rightarrow> string option"

definition PacketStartOffset :: "tun_env \<Rightarrow> nat" where
  "PacketStartOffset c = te_MessageTransportHeaderSize c"

definition MaxPacketSize :: "tun_env \<Rightarrow> nat" where
  "MaxPacketSize c = te_MaxContentSize c"

definition ethernetFrameSize :: nat where "ethernetFrameSize = 14"

datatype tun_error =
    errPacketTooBig | errOffsetTooBig | errOffsetTooSmall | ErrEOF | ErrTapOffset nat | ErrDevice string

datatype tunReadResult = DevPkt nat | Injected bytes | ReadErr tun_error

record 'ip tun =
  t_isTAP :: bool
  t_lastActivity :: int
  t_destMAC :: bytes
  t_buffer :: bytes
  t_bufferConsumed :: nat
  t_closed :: bool
  t_outbound :: "tunReadResult list"
  t_filter :: "'ip pkt_filter option"
  t_filterFlags :: run_flags
  t_PeerAPIPort :: "('ip \<Rightarrow> u16 option) option"
  t_disableFilter :: bool
  t_disableTSMPRejected :: bool
  t_written :: "bytes list"
  t_world :: "'ip world"

type_synonym ('ip, 's) FilterFunc = "'ip parsed \<Rightarrow> 's \<Rightarrow> (response \<times> 's) option"

record ('ip, 's) tun_hooks =
  h_PreFilterIn :: "('ip, 's) FilterFunc option"
  h_PostFilterIn :: "('ip, 's) FilterFunc option"
  h_PreFilterOut :: "('ip, 's) FilterFunc option"
  h_PostFilterOut :: "('ip, 's) FilterFunc option"
  h_OnTSMPPongReceived :: "(unit pong \<Rightarrow> 's \<Rightarrow> 's) option"
  h_destIPActivity :: "'ip \<Rightarrow> 's \<Rightarrow> 's option"

definition run_hook :: "('ip, 's) FilterFunc option \<Rightarrow> 'ip parsed \<Rightarrow> 's \<Rightarrow> (response \<times> 's) option" where
  "run_hook f p t = (case f of None \<Rightarrow> Some (Accept, t) | Some f \<Rightarrow> f p t)"

text \<open>\<^verbatim>\<open>closeOnce\<close> makes a second \<^verbatim>\<open>Close\<close> a no-op; the packets already queued can still be read.\<close>

definition Close :: "('ip, 'z) tun_scheme \<Rightarrow> ('ip, 'z) tun_scheme" where
  "Close t = t\<lparr>t_closed := True\<rparr>"

text \<open>
  A new wrapper: the token in \<^verbatim>\<open>bufferConsumed\<close> lets \<^verbatim>\<open>poll\<close> read its first packet. The buffer has
  \<open>bufsize\<close> bytes after \<^verbatim>\<open>PacketStartOffset\<close>; \<open>w\<close> is the state of the packet filters. The hooks of a new
  wrapper are nil.
\<close>

definition wrap :: "int \<Rightarrow> nat \<Rightarrow> bool \<Rightarrow> 'ip world \<Rightarrow> 'ip tun" where
  "wrap now bufsize isTAP w =
     \<lparr>t_isTAP = isTAP, t_lastActivity = now, t_destMAC = replicate 6 0, t_buffer = replicate bufsize 0,
      t_bufferConsumed = 1, t_closed = False, t_outbound = [], t_filter = None, t_filterFlags = LogAccepts OR LogDrops,
      t_PeerAPIPort = None, t_disableFilter = False, t_disableTSMPRejected = False, t_written = [], t_world = w\<rparr>"

definition no_hooks :: "('ip, 's) tun_hooks" where
  "no_hooks = \<lparr>h_PreFilterIn = None, h_PostFilterIn = None, h_PreFilterOut = None, h_PostFilterOut = None,
     h_OnTSMPPongReceived = None, h_destIPActivity = (\<lambda>_ s. Some s)\<rparr>"

section \<open>Writing to the device and injecting packets\<close>

definition noteActivity :: "int \<Rightarrow> ('ip, 'z) tun_scheme \<Rightarrow> ('ip, 'z) tun_scheme" where
  "noteActivity now t = t\<lparr>t_lastActivity := now\<rparr>"

definition IdleDuration :: "int \<Rightarrow> ('ip, 'z) tun_scheme \<Rightarrow> int" where
  "IdleDuration now t = now - t_lastActivity t"

definition ourMAC :: bytes where
  "ourMAC = [0x30, 0x2D, 0x66, 0xEC, 0x7A, 0x93]"

definition etherTypeIPv4 :: bytes where "etherTypeIPv4 = [0x08, 0x00]"
definition etherTypeIPv6 :: bytes where "etherTypeIPv6 = [0x86, 0xDD]"
definition etherTypeARP :: bytes where "etherTypeARP = [0x08, 0x06]"

definition dev_Write :: "tun_env \<Rightarrow> bytes \<Rightarrow> nat \<Rightarrow> ('ip, 'z) tun_scheme \<Rightarrow> (tun_error option \<times> ('ip, 'z) tun_scheme) option" where
  "dev_Write c buf ofs t =
     do { d \<leftarrow> slice_from buf ofs;
          case te_dev_write c d of
            Some e \<Rightarrow> Some (Some (ErrDevice e), t)
          | None \<Rightarrow> Some (None, t\<lparr>t_written := t_written t @ [d]\<rparr>) }"

definition tapWrite :: "tun_env \<Rightarrow> bytes \<Rightarrow> nat \<Rightarrow> ('ip, 'z) tun_scheme \<Rightarrow> (tun_error option \<times> ('ip, 'z) tun_scheme) option" where
  "tapWrite c buf ofs t =
     (if ofs < ethernetFrameSize then Some (Some (ErrTapOffset ofs), t)
      else do {
        let eth = ofs - ethernetFrameSize;
        buf \<leftarrow> copy_at buf eth (eth + 6) (t_destMAC t);
        buf \<leftarrow> copy_at buf (eth + 6) (eth + 12) ourMAC;
        b \<leftarrow> idx buf ofs;
        let et = (if drop_bit 4 b = 6 then etherTypeIPv6 else etherTypeIPv4);
        buf \<leftarrow> set_idx buf (eth + 12) (et ! 0);
        buf \<leftarrow> set_idx buf (eth + 13) (et ! 1);
        dev_Write c buf eth t })"

definition tdevWrite :: "tun_env \<Rightarrow> bytes \<Rightarrow> nat \<Rightarrow> ('ip, 'z) tun_scheme \<Rightarrow> (tun_error option \<times> ('ip, 'z) tun_scheme) option" where
  "tdevWrite c buf ofs t = (if t_isTAP t then tapWrite c buf ofs t else dev_Write c buf ofs t)"

definition GetFilter :: "('ip, 'z) tun_scheme \<Rightarrow> 'ip pkt_filter option" where
  "GetFilter t = t_filter t"

definition SetFilter :: "'ip pkt_filter option \<Rightarrow> ('ip, 'z) tun_scheme \<Rightarrow> ('ip, 'z) tun_scheme" where
  "SetFilter filt t = t\<lparr>t_filter := filt\<rparr>"

definition InjectInboundDirect :: "tun_env \<Rightarrow> bytes \<Rightarrow> nat \<Rightarrow> ('ip, 'z) tun_scheme \<Rightarrow> (tun_error option \<times> ('ip, 'z) tun_scheme) option" where
  "InjectInboundDirect c buf ofs t =
     (if length buf > MaxPacketSize c then Some (Some errPacketTooBig, t)
      else if length buf < ofs then Some (Some errOffsetTooBig, t)
      else if ofs < PacketStartOffset c then Some (Some errOffsetTooSmall, t)
      else tdevWrite c buf ofs t)"

definition InjectInboundCopy :: "tun_env \<Rightarrow> bytes \<Rightarrow> ('ip, 'z) tun_scheme \<Rightarrow> (tun_error option \<times> ('ip, 'z) tun_scheme) option" where
  "InjectInboundCopy c packet t =
     (if length packet > MaxPacketSize c then Some (Some errPacketTooBig, t)
      else if length packet = 0 then Some (None, t)
      else InjectInboundDirect c (replicate (PacketStartOffset c) 0 @ packet) (PacketStartOffset c) t)"

text \<open>A send on a closed channel panics; \<^verbatim>\<open>allowSendOnClosedChannel\<close> recovers from that panic.\<close>

definition sendOutbound :: "tunReadResult \<Rightarrow> ('ip, 'z) tun_scheme \<Rightarrow> ('ip, 'z) tun_scheme" where
  "sendOutbound r t = (if t_closed t then t else t\<lparr>t_outbound := t_outbound t @ [r]\<rparr>)"

definition sendBufferConsumed :: "('ip, 'z) tun_scheme \<Rightarrow> ('ip, 'z) tun_scheme" where
  "sendBufferConsumed t = (if t_closed t then t else t\<lparr>t_bufferConsumed := Suc (t_bufferConsumed t)\<rparr>)"

definition InjectOutbound :: "tun_env \<Rightarrow> bytes \<Rightarrow> ('ip, 'z) tun_scheme \<Rightarrow> tun_error option \<times> ('ip, 'z) tun_scheme" where
  "InjectOutbound c packet t =
     (if length packet > MaxPacketSize c then (Some errPacketTooBig, t)
      else if length packet = 0 then (None, t)
      else (None, sendOutbound (Injected packet) t))"

definition peer_api_port :: "('ip, 'z) tun_scheme \<Rightarrow> 'ip \<Rightarrow> u16" where
  "peer_api_port t ip =
     (case t_PeerAPIPort t of None \<Rightarrow> 0 | Some f \<Rightarrow> (case f ip of None \<Rightarrow> 0 | Some port \<Rightarrow> port))"

definition injectOutboundPong ::
  "'ip netaddr \<Rightarrow> tun_env \<Rightarrow> 'ip parsed \<Rightarrow> ping \<Rightarrow> ('ip, 'z) tun_scheme \<Rightarrow> ('ip, 'z) tun_scheme option" where
  "injectOutboundPong na c pp req t =
     (let port = peer_api_port t (ipp_IP (q_Dst pp))
      in if IPVersion pp = 4
         then do { h4 \<leftarrow> IP4Header_of pp;
                   let pong = \<lparr>pong_IPHeader = ToResponse_IP4 h4, pong_Data = ping_Data req, pong_PeerAPIPort = port\<rparr>;
                   pkt \<leftarrow> Generate (len_Pong len_IP4 pong) (marshal_Pong len_IP4 (marshal_IP4 na) pong) [];
                   Some (snd (InjectOutbound c pkt t)) }
         else if IPVersion pp = 6
         then do { h6 \<leftarrow> IP6Header_of pp;
                   let pong = \<lparr>pong_IPHeader = ToResponse_IP6 h6, pong_Data = ping_Data req, pong_PeerAPIPort = port\<rparr>;
                   pkt \<leftarrow> Generate (len_Pong len_IP6 pong) (marshal_Pong len_IP6 (marshal_IP6 na) pong) [];
                   Some (snd (InjectOutbound c pkt t)) }
         else Some t)"

section \<open>The filters\<close>

definition magicDNSIPPort :: "'ip netaddr \<Rightarrow> 'ip ipport" where
  "magicDNSIPPort na = IPPort (na_IPv4 na 100 100 100 100) 0"

definition filterOut ::
  "'ip netaddr \<Rightarrow> tun_env \<Rightarrow> ('ip, ('ip, 'z) tun_scheme) tun_hooks \<Rightarrow> int \<Rightarrow> 'ip parsed \<Rightarrow> ('ip, 'z) tun_scheme \<Rightarrow>
   (response \<times> ('ip, 'z) tun_scheme) option" where
  "filterOut na c h now p t =
     (if IsEchoRequest p \<and> q_Dst p = magicDNSIPPort na
      then do { hdr \<leftarrow> ICMP4Header_of p;
                let hdr = ToResponse_ICMP4 hdr;
                pl \<leftarrow> Payload p;
                outp \<leftarrow> Generate (len_ICMP4 hdr) (marshal_ICMP4 na hdr) pl;
                (_, t) \<leftarrow> InjectInboundCopy c outp t;
                Some (DropSilently, t) }
      else do {
        (res, t) \<leftarrow> run_hook (h_PreFilterOut h) p t;
        if IsDrop res then Some (res, t)
        else case t_filter t of
               None \<Rightarrow> Some (Drop, t)
             | Some filt \<Rightarrow>
                 (let (r, w) = RunOut na now filt p (t_filterFlags t) (t_world t);
                      t = t\<lparr>t_world := w\<rparr>
                  in if r \<noteq> Accept then Some (Drop, t)
                     else do { (res, t) \<leftarrow> run_hook (h_PostFilterOut h) p t;
                               if IsDrop res then Some (res, t) else Some (Accept, t) }) })"

text \<open>The notice that \<^verbatim>\<open>filterIn\<close> sends for a dropped connection attempt, and when it sends it.\<close>

definition reject_notice :: "'ip pkt_filter \<Rightarrow> 'ip parsed \<Rightarrow> 'ip rejected" where
  "reject_notice filt p =
     \<lparr>rh_IPSrc = ipp_IP (q_Dst p), rh_IPDst = ipp_IP (q_Src p), rh_Src = q_Src p, rh_Dst = q_Dst p,
      rh_Proto = IPProto p,
      rh_Reason = (if ShieldsUp filt then RejectedDueToShieldsUp else RejectedDueToACLs), rh_MaybeBroken = False\<rparr>"

definition peerapi_syn :: "'ip parsed \<Rightarrow> ('ip, 'z) tun_scheme \<Rightarrow> bool" where
  "peerapi_syn p t \<longleftrightarrow> IPProto p = TCP \<and> TCPFlags p AND TCPSyn \<noteq> 0 \<and>
     (case t_PeerAPIPort t of None \<Rightarrow> False
      | Some f \<Rightarrow> (case f (ipp_IP (q_Dst p)) of None \<Rightarrow> False | Some port \<Rightarrow> port = ipp_Port (q_Dst p)))"

definition answers_rejection :: "'ip parsed \<Rightarrow> ('ip, 'z) tun_scheme \<Rightarrow> bool" where
  "answers_rejection p t \<longleftrightarrow>
     IPVersion p = 4 \<and> IPProto p = TCP \<and> TCPFlags p AND TCPSyn \<noteq> 0 \<and> \<not> t_disableTSMPRejected t"

definition filterIn_rules ::
  "'ip netaddr \<Rightarrow> tun_env \<Rightarrow> ('ip, ('ip, 'z) tun_scheme) tun_hooks \<Rightarrow> int \<Rightarrow> 'ip parsed \<Rightarrow> ('ip, 'z) tun_scheme \<Rightarrow>
   (response \<times> ('ip, 'z) tun_scheme) option" where
  "filterIn_rules na c h now p t =
     (case t_filter t of
        None \<Rightarrow> Some (Drop, t)
      | Some filt \<Rightarrow>
          (let (outcome, w) = RunIn na now filt p (t_filterFlags t) (t_world t);
               t = t\<lparr>t_world := w\<rparr>;
               outcome = (if outcome \<noteq> Accept \<and> peerapi_syn p t then Accept else outcome)
           in if outcome \<noteq> Accept
              then if answers_rejection p t
                   then do { let rj = reject_notice filt p;
                             pkt \<leftarrow> Generate (len_Rejected na rj) (marshal_Rejected na rj) [];
                             Some (Drop, snd (InjectOutbound c pkt t)) }
                   else Some (Drop, t)
              else do { (res, t) \<leftarrow> run_hook (h_PostFilterIn h) p t;
                        if IsDrop res then Some (res, t) else Some (Accept, t) }))"

definition filterIn ::
  "'ip netaddr \<Rightarrow> tun_env \<Rightarrow> ('ip, ('ip, 'z) tun_scheme) tun_hooks \<Rightarrow> int \<Rightarrow> 'ip parsed \<Rightarrow> bytes \<Rightarrow> ('ip, 'z) tun_scheme \<Rightarrow>
   (response \<times> ('ip, 'z) tun_scheme) option" where
  "filterIn na c h now p0 buf t =
     do { p \<leftarrow> Decode na p0 buf;
          pingReq \<leftarrow> (if IPProto p = TSMP then AsTSMPPing p else Some None);
          case pingReq of
            Some pingReq \<Rightarrow>
              do { t \<leftarrow> injectOutboundPong na c p pingReq (noteActivity now t);
                   Some (DropSilently, t) }
          | None \<Rightarrow>
              do { pong \<leftarrow> (if IPProto p = TSMP then AsTSMPPong p else Some None);
                   let t = (case (pong, h_OnTSMPPongReceived h) of (Some data, Some f) \<Rightarrow> f data t | _ \<Rightarrow> t);
                   (res, t) \<leftarrow> run_hook (h_PreFilterIn h) p t;
                   if IsDrop res then Some (res, t) else filterIn_rules na c h now p t } }"

section \<open>Reading and writing\<close>

text \<open>\<open>p0\<close> is the recycled \<^verbatim>\<open>packet.Parsed\<close> of the pool.\<close>

definition Write ::
  "'ip netaddr \<Rightarrow> tun_env \<Rightarrow> ('ip, ('ip, 'z) tun_scheme) tun_hooks \<Rightarrow> int \<Rightarrow> 'ip parsed \<Rightarrow> bytes \<Rightarrow> nat \<Rightarrow> ('ip, 'z) tun_scheme \<Rightarrow>
   (tun_error option \<times> ('ip, 'z) tun_scheme) option" where
  "Write na c h now p0 buf ofs t =
     (if \<not> t_disableFilter t
      then do { b \<leftarrow> slice_from buf ofs;
                (r, t) \<leftarrow> filterIn na c h now p0 b t;
                if r \<noteq> Accept then Some (None, t)
                else tdevWrite c buf ofs (noteActivity now t) }
      else tdevWrite c buf ofs (noteActivity now t))"

definition read_packet ::
  "'ip netaddr \<Rightarrow> tun_env \<Rightarrow> ('ip, ('ip, 'z) tun_scheme) tun_hooks \<Rightarrow> int \<Rightarrow> 'ip parsed \<Rightarrow> bytes \<Rightarrow> bool \<Rightarrow> ('ip, 'z) tun_scheme \<Rightarrow>
   (bytes \<times> ('ip, 'z) tun_scheme) option" where
  "read_packet na c h now p0 d isInjectedPacket t =
     do { p \<leftarrow> Decode na p0 d;
          t \<leftarrow> h_destIPActivity h (ipp_IP (q_Dst p)) t;
          if \<not> isInjectedPacket \<and> \<not> t_disableFilter t
          then do { (response, t) \<leftarrow> filterOut na c h now p t;
                    if response \<noteq> Accept then Some ([], t) else Some (d, noteActivity now t) }
          else Some (d, noteActivity now t) }"

text \<open>
  \<^verbatim>\<open>Read\<close> when there is something in the queue, or the wrapper is closed; the outer \<open>None\<close> is a panic. The
  result is the packet copied to the caller's buffer, of which \<open>avail\<close> bytes are available after the offset.
  An empty packet makes \<^verbatim>\<open>&pkt[0]\<close> panic.
\<close>

definition Read ::
  "'ip netaddr \<Rightarrow> tun_env \<Rightarrow> ('ip, ('ip, 'z) tun_scheme) tun_hooks \<Rightarrow> int \<Rightarrow> 'ip parsed \<Rightarrow> nat \<Rightarrow> ('ip, 'z) tun_scheme \<Rightarrow>
   ((tun_error + bytes) \<times> ('ip, 'z) tun_scheme) option" where
  "Read na c h now p0 avail t =
     (case t_outbound t of
        [] \<Rightarrow> Some (Inl ErrEOF, t)
      | res # q \<Rightarrow>
          (let t = t\<lparr>t_outbound := q\<rparr>
           in case res of
                ReadErr e \<Rightarrow> Some (Inl e, t)
              | DevPkt n \<Rightarrow>
                  (let pkt = take n (t_buffer t)
                   in if pkt = [] then None
                      else do { (d, t) \<leftarrow> read_packet na c h now p0 (take avail pkt) False (sendBufferConsumed t);
                                Some (Inr d, t) })
              | Injected pkt \<Rightarrow>
                  if pkt = [] then None
                  else do { (d, t) \<leftarrow> read_packet na c h now p0 (take avail pkt) True t;
                            Some (Inr d, t) }))"

section \<open>Replies that the wrapper injects\<close>

lemma AsTSMPPing_Some:
  assumes "AsTSMPPing p = Some (Some req)"
  shows "IPProto p = TSMP" "length (ping_Data req) = 8"
  using assms by (auto simp: AsTSMPPing_def slice_from_def split: if_splits Option.bind_splits)

lemma IP4Header_of_Decode:
  assumes laws: "netaddr_laws na" and d: "Decode na p0 buf = Some p" and v: "IPVersion p = 4" "IPProto p \<noteq> Unknown"
  obtains h where "IP4Header_of p = Some h" "h4_IPProto h = IPProto p" "h4_Src h = ipp_IP (q_Src p)"
    "h4_Dst h = ipp_IP (q_Dst p)" "valid_ip4 na h"
proof -
  have "20 \<le> length (q_b p)" using Decode_wf [of na p0 buf] d v by (auto simp: parsed_wf_def)
  moreover have "na_Is4 na (ipp_IP (q_Src p))" "na_Is4 na (ipp_IP (q_Dst p))"
    using Decode_v4_addrs [OF d v] Is4_IPv4 [OF laws] by auto
  ultimately show ?thesis using that v laws
    by (simp add: IP4Header_of_def u16_at_eq valid_ip4_def)
qed

lemma InjectOutbound_small:
  "pkt \<noteq> [] \<Longrightarrow> length pkt \<le> MaxPacketSize c \<Longrightarrow> \<not> t_closed t \<Longrightarrow>
    InjectOutbound c pkt t = (None, t\<lparr>t_outbound := t_outbound t @ [Injected pkt]\<rparr>)"
  by (simp add: InjectOutbound_def sendOutbound_def)

lemma pong4_injected:
  assumes laws: "netaddr_laws na" and d: "Decode na p0 buf = Some p" and v: "IPVersion p = 4"
    and req: "AsTSMPPing p = Some (Some req)" and room: "31 \<le> MaxPacketSize c" and opn: "\<not> t_closed t"
  shows "\<exists>pkt q'. injectOutboundPong na c p req t = Some (t\<lparr>t_outbound := t_outbound t @ [Injected pkt]\<rparr>) \<and>
    Decode na q pkt = Some q' \<and> ipp_IP (q_Src q') = ipp_IP (q_Dst p) \<and> ipp_IP (q_Dst q') = ipp_IP (q_Src p) \<and>
    AsTSMPPong q' = Some (Some \<lparr>pong_IPHeader = (), pong_Data = ping_Data req,
      pong_PeerAPIPort = peer_api_port t (ipp_IP (q_Dst p))\<rparr>)"
proof -
  note tsmp = AsTSMPPing_Some [OF req]
  have "IPProto p \<noteq> Unknown" using tsmp by (simp add: TSMP_def Unknown_def)
  from IP4Header_of_Decode [OF laws d v this] obtain h where
    h: "IP4Header_of p = Some h" "h4_IPProto h = IPProto p" "h4_Src h = ipp_IP (q_Src p)" "h4_Dst h = ipp_IP (q_Dst p)"
    and vh: "valid_ip4 na h" by blast
  define pong where "pong = \<lparr>pong_IPHeader = ToResponse_IP4 h, pong_Data = ping_Data req,
    pong_PeerAPIPort = peer_api_port t (ipp_IP (q_Dst p))\<rparr>"
  have vp: "valid_ip4 na (pong_IPHeader pong)" "h4_IPProto (pong_IPHeader pong) = TSMP" "length (pong_Data pong) = 8"
    using vh h tsmp by (simp_all add: pong_def ToResponse_IP4_def valid_ip4_def)
  have l: "len_Pong len_IP4 pong = 31"
    by (simp add: len_Pong_def len_IP4_def ip4HeaderLength_def)
  obtain pkt q' where pq: "Generate (len_Pong len_IP4 pong) (marshal_Pong len_IP4 (marshal_IP4 na) pong) [] = Some pkt"
    "Decode na q pkt = Some q'" "ipp_IP (q_Src q') = h4_Src (pong_IPHeader pong)"
    "ipp_IP (q_Dst q') = h4_Dst (pong_IPHeader pong)"
    "AsTSMPPong q' = Some (Some \<lparr>pong_IPHeader = (), pong_Data = pong_Data pong, pong_PeerAPIPort = pong_PeerAPIPort pong\<rparr>)"
    using Pong4_wire [OF vp, of q] by blast
  have "length pkt = 31"
    using pong4.Generate_ok [of na pong "[]"] vp l pq(1) by (auto simp: maxPacketLength_def)
  then have "InjectOutbound c pkt t = (None, t\<lparr>t_outbound := t_outbound t @ [Injected pkt]\<rparr>)"
    using room opn by (intro InjectOutbound_small) auto
  with pq h v show ?thesis
    by (intro exI [of _ pkt] exI [of _ q'])
      (simp add: injectOutboundPong_def Let_def pong_def [symmetric], simp add: pong_def ToResponse_IP4_def)
qed

text \<open>
  C15. A TSMP ping over IPv4 is answered whatever the packet filter and the hooks say: \<^verbatim>\<open>filterIn\<close> hides the
  ping from the device and queues a packet for the peer, which the peer decodes as a pong with the data
  of the ping, the port of the peer API, and the two addresses swapped.
\<close>

theorem ping_answered:
  assumes "netaddr_laws na" and "Decode na p0 buf = Some p" and "IPVersion p = 4"
    and "AsTSMPPing p = Some (Some req)" and "31 \<le> MaxPacketSize c" and "\<not> t_closed t"
  shows "\<exists>pkt q'. filterIn na c h now p0 buf t =
      Some (DropSilently, t\<lparr>t_lastActivity := now, t_outbound := t_outbound t @ [Injected pkt]\<rparr>) \<and>
    Decode na q pkt = Some q' \<and> ipp_IP (q_Src q') = ipp_IP (q_Dst p) \<and> ipp_IP (q_Dst q') = ipp_IP (q_Src p) \<and>
    AsTSMPPong q' = Some (Some \<lparr>pong_IPHeader = (), pong_Data = ping_Data req,
      pong_PeerAPIPort = peer_api_port t (ipp_IP (q_Dst p))\<rparr>)"
proof -
  have "peer_api_port (noteActivity now t) = peer_api_port t"
    by (simp add: noteActivity_def peer_api_port_def fun_eq_iff)
  with pong4_injected [OF assms(1-5), of "noteActivity now t" q] assms(2,4,6) AsTSMPPing_Some(1) [OF assms(4)]
  show ?thesis by (auto simp: filterIn_def noteActivity_def)
qed

text \<open>An environment, a wrapper and three packets, for the witnesses of this theory.\<close>

definition sample_tun_env :: tun_env where
  "sample_tun_env = \<lparr>te_MessageTransportHeaderSize = 16, te_MaxContentSize = 1500, te_dev_write = (\<lambda>_. None)\<rparr>"

definition sample_filter :: "addr pkt_filter" where
  "sample_filter = fst (New addr_netaddr sample_world [sample_rule] sample_local sample_local None)"

definition sample_tun :: "addr tun" where
  "sample_tun = SetFilter (Some sample_filter) (wrap 0 1500 False sample_world)"

definition sample_ping_bytes :: bytes where
  "sample_ping_bytes = [0x45, 0, 0, 29, 0, 0, 0, 0, 64, 99, 0, 0, 100, 64, 0, 2, 100, 64, 0, 1, 112, 1, 2, 3, 4, 5, 6, 7, 8]"

definition sample_syn_bytes :: "u8 \<Rightarrow> bytes" where
  "sample_syn_bytes port = [0x45, 0, 0, 40, 0, 0, 0, 0, 64, 6, 0, 0, 100, 64, 0, 2, 100, 64, 0, 1,
     0x0F, 0xA0, 0, port, 0, 0, 0, 0, 0, 0, 0, 0, 0x50, 2, 0, 0, 0, 0, 0, 0]"

definition sample_ping6_bytes :: bytes where
  "sample_ping6_bytes = [0x60, 0, 0, 0, 0, 8, 58, 64] @ replicate 15 0 @ [1] @ replicate 10 0 @ [0xFF, 0xFF, 100, 100, 100, 100] @
     [128, 0, 0, 0, 0, 0, 0, 0]"

theorem ping_answered_witness:
  "\<exists>pkt q'. filterIn addr_netaddr sample_tun_env no_hooks 7 (zero_parsed ZeroIP) sample_ping_bytes sample_tun =
      Some (DropSilently, sample_tun\<lparr>t_lastActivity := 7, t_outbound := [Injected pkt]\<rparr>) \<and>
    Decode addr_netaddr (zero_parsed ZeroIP) pkt = Some q' \<and> ipp_IP (q_Dst q') = V4 100 64 0 2 \<and>
    AsTSMPPong q' = Some (Some \<lparr>pong_IPHeader = (), pong_Data = [1, 2, 3, 4, 5, 6, 7, 8], pong_PeerAPIPort = 0\<rparr>)"
proof -
  have "case Decode addr_netaddr (zero_parsed ZeroIP) sample_ping_bytes of
      Some p \<Rightarrow> IPVersion p = 4 \<and> AsTSMPPing p = Some (Some \<lparr>ping_Data = [1, 2, 3, 4, 5, 6, 7, 8]\<rparr>) \<and> ipp_IP (q_Src p) = V4 100 64 0 2
    | None \<Rightarrow> False" by code_simp
  then obtain p where p: "Decode addr_netaddr (zero_parsed ZeroIP) sample_ping_bytes = Some p" "IPVersion p = 4"
    "AsTSMPPing p = Some (Some \<lparr>ping_Data = [1, 2, 3, 4, 5, 6, 7, 8]\<rparr>)" "ipp_IP (q_Src p) = V4 100 64 0 2"
    by (auto split: option.splits)
  have t: "31 \<le> MaxPacketSize sample_tun_env" "\<not> t_closed sample_tun" "t_outbound sample_tun = []" "t_PeerAPIPort sample_tun = None"
    by (simp_all add: MaxPacketSize_def sample_tun_env_def sample_tun_def wrap_def SetFilter_def)
  show ?thesis
    using ping_answered [OF netaddr_laws_addr p(1-3) t(1,2), of no_hooks 7 "zero_parsed ZeroIP"] p(4) t
    by (auto simp: peer_api_port_def)
qed

lemma filterIn_no_tsmp:
  assumes "Decode na p0 buf = Some p" "IPProto p \<noteq> TSMP" "run_hook (h_PreFilterIn h) p t = Some (r, t')"
  shows "filterIn na c h now p0 buf t = (if IsDrop r then Some (r, t') else filterIn_rules na c h now p t')"
  using assms by (simp add: filterIn_def)

lemma peerapi_syn_world [simp]: "peerapi_syn p (t\<lparr>t_world := w\<rparr>) = peerapi_syn p t"
  by (simp add: peerapi_syn_def)

lemma reject_notice_wire:
  assumes laws: "netaddr_laws na" and d: "Decode na p0 buf = Some p" and v: "IPVersion p = 4" "IPProto p = TCP"
  shows "\<exists>pkt q'. Generate (len_Rejected na (reject_notice filt p)) (marshal_Rejected na (reject_notice filt p)) [] = Some pkt \<and>
    Decode na q pkt = Some q' \<and> IPProto q' = TSMP \<and> AsTailscaleRejectedHeader q' = Some (Some (reject_notice filt p)) \<and>
    pkt \<noteq> [] \<and> length pkt \<le> 28"
proof -
  let ?h = "reject_notice filt p"
  have "na_Is4 na (ipp_IP (q_Src p))" "na_Is4 na (ipp_IP (q_Dst p))"
    using Decode_v4_addrs [OF d v(1)] v(2) Is4_IPv4 [OF laws] by (auto simp: TCP_def Unknown_def)
  then have vr: "valid_rejected na ?h" "plain_ip na (rh_IPSrc ?h)" "plain_ip na (rh_IPDst ?h)"
    "ipp_IP (rh_Src ?h) = rh_IPDst ?h" "ipp_IP (rh_Dst ?h) = rh_IPSrc ?h" and l: "len_Rejected na ?h \<in> {1..28}"
    using laws by (simp_all add: valid_rejected_def plain_ip_def reject_notice_def len_Rejected_def header_length_defs)
  obtain pkt q' where pq: "Generate (len_Rejected na ?h) (marshal_Rejected na ?h) [] = Some pkt"
    "Decode na q pkt = Some q'" "IPProto q' = TSMP" "AsTailscaleRejectedHeader q' = Some (Some ?h)"
    using Rejected_wire [OF vr, of q] by blast
  moreover have "length pkt = len_Rejected na ?h"
    using rejected.Generate_ok [of na ?h "[]"] vr(1) l pq(1) by (auto simp: maxPacketLength_def)
  ultimately show ?thesis using l by (auto intro!: exI [of _ pkt])
qed

lemma refused_syn_core:
  assumes "netaddr_laws na" and "Decode na p0 buf = Some p" and "run_hook (h_PreFilterIn h) p t = Some (r, t')"
    and "\<not> IsDrop r" and "t_filter t' = Some filt"
    and "RunIn na now filt p (t_filterFlags t') (t_world t') = (v, w)" and "v \<noteq> Accept"
    and "answers_rejection p t'" and "\<not> peerapi_syn p t'" and "28 \<le> MaxPacketSize c" and "\<not> t_closed t'"
  shows "\<exists>pkt q'. filterIn na c h now p0 buf t =
      Some (Drop, t'\<lparr>t_world := w, t_outbound := t_outbound t' @ [Injected pkt]\<rparr>) \<and>
    Decode na q pkt = Some q' \<and> IPProto q' = TSMP \<and> AsTailscaleRejectedHeader q' = Some (Some (reject_notice filt p))"
proof -
  have p: "IPVersion p = 4" "IPProto p = TCP" using assms(8) by (simp_all add: answers_rejection_def)
  obtain pkt q' where pkt: "Generate (len_Rejected na (reject_notice filt p)) (marshal_Rejected na (reject_notice filt p)) [] = Some pkt"
    "Decode na q pkt = Some q'" "IPProto q' = TSMP" "AsTailscaleRejectedHeader q' = Some (Some (reject_notice filt p))"
    "pkt \<noteq> []" "length pkt \<le> 28"
    using reject_notice_wire [OF assms(1,2) p, of filt q] by blast
  have "answers_rejection p (t'\<lparr>t_world := w\<rparr>)"
    using assms(8) by (simp add: answers_rejection_def)
  then have "filterIn_rules na c h now p t' =
      Some (Drop, t'\<lparr>t_world := w, t_outbound := t_outbound t' @ [Injected pkt]\<rparr>)"
    using assms(5-7,9-11) pkt by (simp add: filterIn_rules_def InjectOutbound_small)
  moreover have "IPProto p \<noteq> TSMP" using p by (simp add: TCP_def TSMP_def)
  ultimately show ?thesis
    using filterIn_no_tsmp [OF assms(2) _ assms(3), of c now] assms(4) pkt by auto
qed

text \<open>
  C14. A TCP SYN over IPv4 that the rules refuse and that is not for the peer API is dropped, and its sender is
  told: the wrapper queues one packet, which the sender decodes as the rejection notice for exactly this
  flow, with the reason that says whether shields were up.
\<close>

theorem refused_syn_is_reported:
  assumes "netaddr_laws na" and "Decode na p0 buf = Some p" and "run_hook (h_PreFilterIn h) p t = Some (r, t')"
    and "\<not> IsDrop r" and "t_filter t' = Some filt"
    and "RunIn na now filt p (t_filterFlags t') (t_world t') = (v, w)" and "v \<noteq> Accept"
    and "answers_rejection p t'" and "\<not> peerapi_syn p t'" and "28 \<le> MaxPacketSize c" and "\<not> t_closed t'"
  shows "\<exists>pkt q'. filterIn na c h now p0 buf t =
      Some (Drop, t'\<lparr>t_world := w, t_outbound := t_outbound t' @ [Injected pkt]\<rparr>) \<and>
    Decode na q pkt = Some q' \<and> AsTailscaleRejectedHeader q' = Some (Some (reject_notice filt p))"
  using refused_syn_core [OF assms, of q] by blast

theorem refused_syn_is_reported_witness:
  "\<exists>pkt q' rh t'. filterIn addr_netaddr sample_tun_env no_hooks 7 (zero_parsed ZeroIP) (sample_syn_bytes 8) sample_tun = Some (Drop, t') \<and>
    t_outbound t' = [Injected pkt] \<and> Decode addr_netaddr (zero_parsed ZeroIP) pkt = Some q' \<and>
    AsTailscaleRejectedHeader q' = Some (Some rh) \<and> rh_Src rh = IPPort (V4 100 64 0 2) 4000 \<and> rh_Reason rh = RejectedDueToACLs"
proof -
  have "case Decode addr_netaddr (zero_parsed ZeroIP) (sample_syn_bytes 8) of
      Some p \<Rightarrow> answers_rejection p sample_tun \<and> \<not> peerapi_syn p sample_tun \<and> q_Src p = IPPort (V4 100 64 0 2) 4000 \<and>
        fst (RunIn addr_netaddr 7 sample_filter p (LogAccepts OR LogDrops) sample_world) \<noteq> Accept
    | None \<Rightarrow> False" by code_simp
  then obtain p where p: "Decode addr_netaddr (zero_parsed ZeroIP) (sample_syn_bytes 8) = Some p"
    "answers_rejection p sample_tun" "\<not> peerapi_syn p sample_tun" "q_Src p = IPPort (V4 100 64 0 2) 4000"
    "fst (RunIn addr_netaddr 7 sample_filter p (LogAccepts OR LogDrops) sample_world) \<noteq> Accept"
    by (auto split: option.splits)
  have t: "28 \<le> MaxPacketSize sample_tun_env" "\<not> t_closed sample_tun" "t_outbound sample_tun = []" "t_filter sample_tun = Some sample_filter"
    "t_filterFlags sample_tun = LogAccepts OR LogDrops" "t_world sample_tun = sample_world" "\<not> ShieldsUp sample_filter"
    by (simp_all add: MaxPacketSize_def sample_tun_env_def sample_tun_def wrap_def SetFilter_def sample_filter_def ShieldsUp_def New_def Let_def)
  have h: "run_hook (h_PreFilterIn no_hooks) p sample_tun = Some (Accept, sample_tun)" "\<not> IsDrop Accept"
    by (simp_all add: run_hook_def no_hooks_def IsDrop_def)
  from refused_syn_is_reported [OF netaddr_laws_addr p(1) h t(4) _ p(5,2,3) t(1,2), of 7 "snd (RunIn addr_netaddr 7 sample_filter p
      (LogAccepts OR LogDrops) sample_world)" "zero_parsed ZeroIP"] t p(4)
  show ?thesis by (fastforce simp: reject_notice_def)
qed



end
