(* ===== verification/Tunpoll.thy ===== *)
theory Tunpoll
  imports Tstun "HOL-Library.Sublist"
begin

text \<open>
  The goroutines around the TUN device: what \<^verbatim>\<open>poll\<close> of \<^verbatim>\<open>net/tstun/wrap.go\<close> does with the frames of a TAP device
  (\<^verbatim>\<open>handleTAPFrame\<close> of \<^verbatim>\<open>net/tstun/tap_linux.go\<close>), and the protocol by which \<^verbatim>\<open>poll\<close>, \<^verbatim>\<open>Read\<close>, the senders of injected
  packets and \<^verbatim>\<open>Close\<close> share one buffer and two channels, as a step relation.

  The encoders and accessors of gvisor's \<^verbatim>\<open>header\<close> package and the \<^verbatim>\<open>dhcpv4\<close> package are the record \<open>tap_env\<close>,
  an argument.
\<close>

section \<open>Frames of a TAP device\<close>

datatype dhcp_type = MessageTypeDiscover | MessageTypeRequest | MessageTypeOther

record 'd tap_env =
  gv_ARP_IsValid :: "bytes \<Rightarrow> bool"
  gv_ARP_Op :: "bytes \<Rightarrow> nat"
  gv_HardwareAddressSender :: "bytes \<Rightarrow> bytes"
  gv_ProtocolAddressSender :: "bytes \<Rightarrow> bytes"
  gv_ProtocolAddressTarget :: "bytes \<Rightarrow> bytes"
  gv_ARPReply :: "bytes \<Rightarrow> bytes \<Rightarrow> bytes \<Rightarrow> bytes \<Rightarrow> bytes"
  gv_Ethernet :: "bytes \<Rightarrow> bytes \<Rightarrow> u16 \<Rightarrow> bytes"
  gv_IPv4 :: "u16 \<Rightarrow> u8 \<Rightarrow> u8 \<Rightarrow> bytes \<Rightarrow> bytes \<Rightarrow> bytes"
  gv_UDP :: "bytes \<Rightarrow> bytes \<Rightarrow> u16 \<Rightarrow> u16 \<Rightarrow> u16 \<Rightarrow> bytes \<Rightarrow> bytes"
  dh_FromBytes :: "bytes \<Rightarrow> 'd option"
  dh_MessageType :: "'d \<Rightarrow> dhcp_type"
  dh_Offer :: "'d \<Rightarrow> bytes option"
  dh_Ack :: "'d \<Rightarrow> bytes option"

definition ipv4HeaderLen :: nat where "ipv4HeaderLen = 20"

definition consumePacket :: bool where "consumePacket = True"
definition passOnPacket :: bool where "passOnPacket = False"

definition ARPRequest :: nat where "ARPRequest = 1"

text \<open>The four bytes that print as \<^verbatim>\<open>100.70.145.3\<close>.\<close>

definition theClientIP :: bytes where "theClientIP = [100, 70, 145, 3]"

text \<open>The three headers, each with its checksum, and the payload.\<close>

definition packLayer2UDP ::
  "'ip netaddr \<Rightarrow> 'd tap_env \<Rightarrow> bytes \<Rightarrow> bytes \<Rightarrow> bytes \<Rightarrow> 'ip ipport \<Rightarrow> 'ip ipport \<Rightarrow> bytes option" where
  "packLayer2UDP na e payload srcMAC dstMAC src dst =
     do { srcIP \<leftarrow> na_As4 na (ipp_IP src);
          dstIP \<leftarrow> na_As4 na (ipp_IP dst);
          Some (gv_Ethernet e srcMAC dstMAC 0x0800 @
                gv_IPv4 e (of_nat (20 + 8 + length payload)) 65 17 srcIP dstIP @
                gv_UDP e srcIP dstIP (ipp_Port src) (ipp_Port dst) (of_nat (8 + length payload)) payload @ payload) }"

definition dhcp_reply ::
  "'ip netaddr \<Rightarrow> tun_env \<Rightarrow> 'd tap_env \<Rightarrow> bytes option \<Rightarrow> bytes \<Rightarrow> ('ip, 'z) tun_scheme \<Rightarrow> (bool \<times> ('ip, 'z) tun_scheme) option" where
  "dhcp_reply na c e msg ethSrcMAC t =
     (case msg of
        None \<Rightarrow> Some (consumePacket, t)
      | Some m \<Rightarrow>
          do { pkt \<leftarrow> packLayer2UDP na e m ourMAC ethSrcMAC
                 (IPPort (na_IPv4 na 100 100 100 100) 67) (IPPort (na_IPv4 na 255 255 255 255) 68);
               (_, t) \<leftarrow> dev_Write c pkt 0 t;
               Some (consumePacket, t) })"

definition handleDHCPRequest ::
  "'ip netaddr \<Rightarrow> tun_env \<Rightarrow> 'd tap_env \<Rightarrow> 'ip parsed \<Rightarrow> bytes \<Rightarrow> ('ip, 'z) tun_scheme \<Rightarrow> (bool \<times> ('ip, 'z) tun_scheme) option" where
  "handleDHCPRequest na c e p0 ethBuf t =
     (if length ethBuf < ethernetFrameSize + ipv4HeaderLen + 8 then Some (passOnPacket, t)
      else do {
        ethDstMAC \<leftarrow> slice ethBuf 0 6;
        ethSrcMAC \<leftarrow> slice ethBuf 6 12;
        if ethDstMAC \<noteq> replicate 6 0xFF then Some (passOnPacket, t)
        else do {
          b \<leftarrow> slice_from ethBuf ethernetFrameSize;
          p \<leftarrow> Decode na p0 b;
          if IPProto p \<noteq> UDP \<or> ipp_Port (q_Src p) \<noteq> 68 \<or> ipp_Port (q_Dst p) \<noteq> 67 then Some (passOnPacket, t)
          else do {
            d \<leftarrow> slice_from ethBuf (ethernetFrameSize + ipv4HeaderLen + 8);
            case dh_FromBytes e d of
              None \<Rightarrow> Some (consumePacket, t)
            | Some dp \<Rightarrow>
                (case dh_MessageType e dp of
                   MessageTypeDiscover \<Rightarrow> dhcp_reply na c e (dh_Offer e dp) ethSrcMAC t
                 | MessageTypeRequest \<Rightarrow> dhcp_reply na c e (dh_Ack e dp) ethSrcMAC t
                 | MessageTypeOther \<Rightarrow> Some (consumePacket, t)) } } })"

text \<open>
  \<open>gv_ARPReply\<close> takes the hardware and protocol addresses of the sender and of the target, in the
  order of the packet.
\<close>

definition arp_reply ::
  "tun_env \<Rightarrow> 'd tap_env \<Rightarrow> bytes \<Rightarrow> bytes \<Rightarrow> ('ip, 'z) tun_scheme \<Rightarrow> (bool \<times> ('ip, 'z) tun_scheme) option" where
  "arp_reply c e req ethSrcMAC t =
     (let t = (if t_destMAC t \<noteq> ethSrcMAC then t\<lparr>t_destMAC := ethSrcMAC\<rparr> else t);
          target = gv_ProtocolAddressTarget e req;
          sender = (if target = theClientIP then ethSrcMAC else ourMAC);
          buf = gv_Ethernet e ourMAC ethSrcMAC 0x0806 @
                gv_ARPReply e sender target (gv_HardwareAddressSender e req) (gv_ProtocolAddressSender e req)
      in do { (_, t) \<leftarrow> dev_Write c buf 0 t;
              Some (consumePacket, t) })"

definition handleTAPFrame ::
  "'ip netaddr \<Rightarrow> tun_env \<Rightarrow> 'd tap_env \<Rightarrow> 'ip parsed \<Rightarrow> bytes \<Rightarrow> ('ip, 'z) tun_scheme \<Rightarrow> (bool \<times> ('ip, 'z) tun_scheme) option" where
  "handleTAPFrame na c e p0 ethBuf t =
     (if length ethBuf < ethernetFrameSize then Some (consumePacket, t)
      else do {
        ethSrcMAC \<leftarrow> slice ethBuf 6 12;
        et \<leftarrow> slice ethBuf 12 14;
        if et = etherTypeIPv6 then Some (passOnPacket, t)
        else if et = etherTypeIPv4
        then if length ethBuf < ethernetFrameSize + ipv4HeaderLen then Some (consumePacket, t)
             else handleDHCPRequest na c e p0 ethBuf t
        else if et = etherTypeARP
        then do {
          arpPacket \<leftarrow> slice_from ethBuf ethernetFrameSize;
          if \<not> gv_ARP_IsValid e arpPacket then Some (consumePacket, t)
          else if gv_ARP_Op e arpPacket = ARPRequest then arp_reply c e arpPacket ethSrcMAC t
          else Some (consumePacket, t) }
        else Some (consumePacket, t) })"

text \<open>
  The part of \<^verbatim>\<open>poll\<close> between a read of \<open>d\<close>, and the send to \<^verbatim>\<open>t.outbound\<close>: \<open>None\<close> in the pair means that
  the frame was consumed, and that \<^verbatim>\<open>poll\<close> reads again. For a TAP device the frame begins
  \<^verbatim>\<open>ethernetFrameSize\<close> bytes before the place where a packet begins.
\<close>

definition poll_frame ::
  "'ip netaddr \<Rightarrow> tun_env \<Rightarrow> 'd tap_env \<Rightarrow> 'ip parsed \<Rightarrow> bytes \<Rightarrow> ('ip, 'z) tun_scheme \<Rightarrow>
   (tunReadResult option \<times> ('ip, 'z) tun_scheme) option" where
  "poll_frame na c e p0 d t =
     (let pkt = (if t_isTAP t then drop ethernetFrameSize d else d);
          t = t\<lparr>t_buffer := pkt @ drop (length pkt) (t_buffer t)\<rparr>
      in if \<not> t_isTAP t then Some (Some (DevPkt (length d)), t)
         else do {
           (handled, t) \<leftarrow> handleTAPFrame na c e p0 d t;
           if handled then Some (None, t)
           else if length d \<ge> ethernetFrameSize then Some (Some (DevPkt (length d - ethernetFrameSize)), t)
           else Some (Some (DevPkt (length d)), t) })"

lemma dev_Write_0: "\<exists>r t'. dev_Write c buf 0 t = Some (r, t') \<and> t_buffer t' = t_buffer t \<and> t_outbound t' = t_outbound t"
  by (cases "te_dev_write c buf") (simp_all add: dev_Write_def slice_from_def)

lemma dhcp_reply_total:
  assumes "netaddr_laws na"
  shows "\<exists>t'. dhcp_reply na c e msg mac t = Some (consumePacket, t') \<and> t_buffer t' = t_buffer t \<and> t_outbound t' = t_outbound t"
proof (cases msg)
  case (Some m)
  obtain pkt where "packLayer2UDP na e m ourMAC mac (IPPort (na_IPv4 na 100 100 100 100) 67) (IPPort (na_IPv4 na 255 255 255 255) 68) = Some pkt"
    using assms by (simp add: packLayer2UDP_def As4_IPv4)
  with Some dev_Write_0 [of c pkt t] show ?thesis by (auto simp: dhcp_reply_def)
qed (simp add: dhcp_reply_def)

text \<open>
  A frame that is passed on is an IPv6 frame or an IPv4 frame with room for a header, and leaves the
  wrapper as it was; any other frame is consumed.
\<close>

definition passes_on :: "bytes \<Rightarrow> bool" where
  "passes_on d \<longleftrightarrow> 14 \<le> length d \<and>
     (take 2 (drop 12 d) = etherTypeIPv6 \<or> take 2 (drop 12 d) = etherTypeIPv4 \<and> 34 \<le> length d)"

lemma handleDHCPRequest_cases:
  assumes "netaddr_laws na" "34 \<le> length d"
  shows "handleDHCPRequest na c e p0 d t = Some (False, t) \<or>
    (\<exists>t'. handleDHCPRequest na c e p0 d t = Some (True, t') \<and> t_buffer t' = t_buffer t \<and> t_outbound t' = t_outbound t)"
proof (cases "length d < 42 \<or> take 6 d \<noteq> replicate 6 0xFF")
  case True
  then show ?thesis using assms
    by (auto simp: handleDHCPRequest_def ethernetFrameSize_def ipv4HeaderLen_def passOnPacket_def slice_def)
next
  case False
  obtain p where "Decode na p0 (drop 14 d) = Some p" using Decode_wf [of na p0 "drop 14 d"] by blast
  with False dhcp_reply_total [OF assms(1), of c e _ "take 6 (drop 6 d)" t] show ?thesis
    by (auto simp: handleDHCPRequest_def ethernetFrameSize_def ipv4HeaderLen_def passOnPacket_def consumePacket_def
        slice_def slice_from_def split: option.splits dhcp_type.splits)
qed

lemma handleTAPFrame_cases:
  assumes "netaddr_laws na"
  shows "(handleTAPFrame na c e p0 d t = Some (False, t) \<and> passes_on d) \<or>
    (\<exists>t'. handleTAPFrame na c e p0 d t = Some (True, t') \<and> t_buffer t' = t_buffer t \<and> t_outbound t' = t_outbound t)"
proof (cases "14 \<le> length d")
  case True
  have eq: "handleTAPFrame na c e p0 d t =
      (if take 2 (drop 12 d) = etherTypeIPv6 then Some (False, t)
       else if take 2 (drop 12 d) = etherTypeIPv4
       then if length d < 34 then Some (True, t) else handleDHCPRequest na c e p0 d t
       else if take 2 (drop 12 d) = etherTypeARP \<and> gv_ARP_IsValid e (drop 14 d) \<and> gv_ARP_Op e (drop 14 d) = ARPRequest
       then arp_reply c e (drop 14 d) (take 6 (drop 6 d)) t
       else Some (True, t))"
    using True by (simp add: handleTAPFrame_def slice_def slice_from_def ethernetFrameSize_def ipv4HeaderLen_def
        consumePacket_def passOnPacket_def)
  have arp: "\<exists>t'. arp_reply c e a m t = Some (True, t') \<and> t_buffer t' = t_buffer t \<and> t_outbound t' = t_outbound t" for a m
  proof -
    define t1 where "t1 = (if t_destMAC t \<noteq> m then t\<lparr>t_destMAC := m\<rparr> else t)"
    define buf where "buf = gv_Ethernet e ourMAC m 0x0806 @ gv_ARPReply e (if gv_ProtocolAddressTarget e a = theClientIP then m else ourMAC)
      (gv_ProtocolAddressTarget e a) (gv_HardwareAddressSender e a) (gv_ProtocolAddressSender e a)"
    obtain r t' where w: "dev_Write c buf 0 t1 = Some (r, t')" "t_buffer t' = t_buffer t1" "t_outbound t' = t_outbound t1"
      using dev_Write_0 by blast
    have "arp_reply c e a m t = Some (True, t')"
      using w(1) by (simp add: arp_reply_def Let_def consumePacket_def t1_def buf_def)
    with w(2,3) show ?thesis by (simp add: t1_def)
  qed
  show ?thesis
    using True arp [of "drop 14 d" "take 6 (drop 6 d)"] handleDHCPRequest_cases [OF assms, of d c e p0 t]
    unfolding eq by (auto simp: passes_on_def)
qed (simp add: handleTAPFrame_def ethernetFrameSize_def consumePacket_def)

text \<open>
  What \<^verbatim>\<open>poll\<close> gets from a TAP device: it never panics, and it hands on exactly the IPv6 frames and some of the
  IPv4 frames with room for a header, each without its Ethernet header, so that the packet that waits
  is what followed the Ethernet header.
\<close>

theorem poll_frame_tap:
  assumes "netaddr_laws na" and "t_isTAP t"
  shows "\<exists>r t'. poll_frame na c e p0 d t = Some (r, t') \<and>
    (case r of None \<Rightarrow> take 2 (drop 12 d) \<noteq> etherTypeIPv6 \<or> length d < 14
     | Some r \<Rightarrow> passes_on d \<and> r = DevPkt (length d - 14) \<and> take (length d - 14) (t_buffer t') = drop 14 d)"
proof -
  let ?t = "t\<lparr>t_buffer := drop 14 d @ drop (length d - 14) (t_buffer t)\<rparr>"
  have v6: "fst (the (handleTAPFrame na c e p0 d ?t)) = False" if "take 2 (drop 12 d) = etherTypeIPv6" "14 \<le> length d"
    using that by (simp add: handleTAPFrame_def slice_def ethernetFrameSize_def passOnPacket_def)
  show ?thesis
    using handleTAPFrame_cases [OF assms(1), of c e p0 d ?t] v6 assms(2)
    by (cases "14 \<le> length d") (auto simp: poll_frame_def ethernetFrameSize_def passes_on_def)
qed

definition sample_tap_env :: "unit tap_env" where
  "sample_tap_env =
     \<lparr>gv_ARP_IsValid = (\<lambda>_. False), gv_ARP_Op = length, gv_HardwareAddressSender = id, gv_ProtocolAddressSender = id,
      gv_ProtocolAddressTarget = id, gv_ARPReply = (\<lambda>_ _ _ _. []), gv_Ethernet = (\<lambda>_ _ _. []), gv_IPv4 = (\<lambda>_ _ _ _ _. []),
      gv_UDP = (\<lambda>_ _ _ _ _ _. []), dh_FromBytes = (\<lambda>_. None), dh_MessageType = (\<lambda>_. MessageTypeOther),
      dh_Offer = (\<lambda>_. None), dh_Ack = (\<lambda>_. None)\<rparr>"

theorem poll_frame_tap_witness:
  "\<exists>t'. poll_frame addr_netaddr sample_tun_env sample_tap_env (zero_parsed ZeroIP) (replicate 12 0 @ etherTypeIPv6 @ [0x60, 1])
      (sample_tun\<lparr>t_isTAP := True\<rparr>) = Some (Some (DevPkt 2), t') \<and> take 2 (t_buffer t') = [0x60, 1]"
proof -
  let ?d = "replicate 12 0 @ etherTypeIPv6 @ [0x60, 1]" and ?t = "sample_tun\<lparr>t_isTAP := True\<rparr>"
  have "length ?d = 16" "take 2 (drop 12 ?d) = etherTypeIPv6" "drop 14 ?d = [0x60, 1]"
    by (simp_all add: etherTypeIPv6_def)
  with poll_frame_tap [OF netaddr_laws_addr, of ?t sample_tun_env sample_tap_env "zero_parsed ZeroIP" ?d]
  show ?thesis by (auto split: option.splits)
qed

text \<open>
  C37. An IPv6 frame of a TAP device that is nothing but an Ethernet header makes \<^verbatim>\<open>Read\<close> panic: \<^verbatim>\<open>poll\<close> passes an
  empty packet on, although \<^verbatim>\<open>Read\<close> relies on packets not being empty.
\<close>

theorem empty_tap_frame_panics:
  assumes "t_isTAP t" and "\<not> t_closed t" and "t_outbound t = []" and "length mac = 12"
  shows "\<exists>t'. poll_frame na c e p0 (mac @ etherTypeIPv6) t = Some (Some (DevPkt 0), t') \<and>
    Read na c h now p0 avail (sendOutbound (DevPkt 0) t') = None"
  using assms
  by (simp add: poll_frame_def handleTAPFrame_def ethernetFrameSize_def slice_def etherTypeIPv6_def passOnPacket_def
      Read_def sendOutbound_def)

theorem empty_tap_frame_panics_witness:
  "\<exists>t'. poll_frame addr_netaddr sample_tun_env sample_tap_env (zero_parsed ZeroIP) (replicate 12 0 @ etherTypeIPv6)
      (sample_tun\<lparr>t_isTAP := True\<rparr>) = Some (Some (DevPkt 0), t') \<and>
    Read addr_netaddr sample_tun_env no_hooks 7 (zero_parsed ZeroIP) 1500 (sendOutbound (DevPkt 0) t') = None"
  using empty_tap_frame_panics [of "sample_tun\<lparr>t_isTAP := True\<rparr>" "replicate 12 0" addr_netaddr sample_tun_env sample_tap_env
      "zero_parsed ZeroIP" no_hooks 7 1500]
  by (simp add: sample_tun_def wrap_def SetFilter_def)

section \<open>The goroutines that share the buffer\<close>

text \<open>
  The positions of the goroutines: \<^verbatim>\<open>poll\<close> waits for \<^verbatim>\<open>bufferConsumed\<close>, tests \<^verbatim>\<open>isClosed\<close>, waits for the device, waits
  for \<^verbatim>\<open>outboundMu\<close>, holds it and waits for \<^verbatim>\<open>outbound\<close>, or has returned; \<^verbatim>\<open>Read\<close> waits for \<^verbatim>\<open>outbound\<close>, has received
  a result, or has copied a packet out of the buffer; \<^verbatim>\<open>Close\<close> has closed nothing, \<^verbatim>\<open>closed\<close>, also \<^verbatim>\<open>bufferConsumed\<close>,
  or also \<^verbatim>\<open>outbound\<close>.
\<close>

datatype poll_pc = PollWait | PollCheck | PollRead | PollLock tunReadResult | PollSend tunReadResult | PollStop

datatype read_pc = ReadIdle | ReadGot tunReadResult | ReadCopied bytes

datatype close_pc = CloseNot | CloseFlag | CloseConsumed | CloseDone

text \<open>
  \<open>c_inject\<close> is the packet of the goroutine in \<^verbatim>\<open>InjectOutbound\<close> that holds \<^verbatim>\<open>outboundMu\<close>. The lists \<open>c_fetched\<close> and
  \<open>c_given\<close> are history: the packets that the device gave to \<^verbatim>\<open>poll\<close>, and those that \<^verbatim>\<open>Read\<close> copied to
  its caller; \<open>c_failed\<close> says that \<^verbatim>\<open>Read\<close> has reported a failed read of the device.
\<close>

record chans =
  c_buffer :: bytes
  c_tokens :: nat
  c_outbound :: "tunReadResult list"
  c_inject :: "bytes option"
  c_poll :: poll_pc
  c_read :: read_pc
  c_close :: close_pc
  c_fetched :: "bytes list"
  c_given :: "bytes list"
  c_failed :: bool

definition init_chans :: "bytes \<Rightarrow> chans" where
  "init_chans buf = \<lparr>c_buffer = buf, c_tokens = 1, c_outbound = [], c_inject = None, c_poll = PollWait, c_read = ReadIdle,
     c_close = CloseNot, c_fetched = [], c_given = [], c_failed = False\<rparr>"

definition consumed_closed :: "chans \<Rightarrow> bool" where
  "consumed_closed s \<longleftrightarrow> c_close s = CloseConsumed \<or> c_close s = CloseDone"

fun poll_sends :: "poll_pc \<Rightarrow> bool" where
  "poll_sends (PollSend r) = True"
| "poll_sends _ = False"

definition mu_free :: "chans \<Rightarrow> bool" where
  "mu_free s \<longleftrightarrow> c_inject s = None \<and> \<not> poll_sends (c_poll s)"

text \<open>
  One step of one goroutine; \<open>avail\<close> is the room in the buffer of the caller of \<^verbatim>\<open>Read\<close>. Both channels have
  capacity 1.
\<close>

inductive tstep :: "nat \<Rightarrow> chans \<Rightarrow> chans \<Rightarrow> bool" for avail where
  poll_consumed: "c_poll s = PollWait \<Longrightarrow> c_tokens s = Suc n \<Longrightarrow> tstep avail s (s\<lparr>c_tokens := n, c_poll := PollCheck\<rparr>)"
| poll_end: "c_poll s = PollWait \<Longrightarrow> c_tokens s = 0 \<Longrightarrow> consumed_closed s \<Longrightarrow> tstep avail s (s\<lparr>c_poll := PollStop\<rparr>)"
| poll_closed: "c_poll s = PollCheck \<Longrightarrow> c_close s \<noteq> CloseNot \<Longrightarrow> tstep avail s (s\<lparr>c_poll := PollStop\<rparr>)"
| poll_open: "c_poll s = PollCheck \<Longrightarrow> c_close s = CloseNot \<Longrightarrow> tstep avail s (s\<lparr>c_poll := PollRead\<rparr>)"
| poll_again: "c_poll s = PollRead \<Longrightarrow> tstep avail s (s\<lparr>c_buffer := buf, c_poll := PollCheck\<rparr>)"
| poll_packet: "c_poll s = PollRead \<Longrightarrow>
    tstep avail s (s\<lparr>c_buffer := d @ drop (length d) (c_buffer s), c_poll := PollLock (DevPkt (length d)),
      c_fetched := c_fetched s @ [d]\<rparr>)"
| poll_error: "c_poll s = PollRead \<Longrightarrow> tstep avail s (s\<lparr>c_poll := PollLock (ReadErr e)\<rparr>)"
| poll_lock: "c_poll s = PollLock r \<Longrightarrow> mu_free s \<Longrightarrow> tstep avail s (s\<lparr>c_poll := PollSend r\<rparr>)"
| poll_send: "c_poll s = PollSend r \<Longrightarrow> c_close s \<noteq> CloseDone \<Longrightarrow> c_outbound s = [] \<Longrightarrow>
    tstep avail s (s\<lparr>c_outbound := [r], c_poll := PollWait\<rparr>)"
| poll_send_closed: "c_poll s = PollSend r \<Longrightarrow> c_close s = CloseDone \<Longrightarrow> tstep avail s (s\<lparr>c_poll := PollWait\<rparr>)"
| inject_lock: "mu_free s \<Longrightarrow> p \<noteq> [] \<Longrightarrow> tstep avail s (s\<lparr>c_inject := Some p\<rparr>)"
| inject_send: "c_inject s = Some p \<Longrightarrow> c_close s \<noteq> CloseDone \<Longrightarrow> c_outbound s = [] \<Longrightarrow>
    tstep avail s (s\<lparr>c_outbound := [Injected p], c_inject := None\<rparr>)"
| inject_closed: "c_inject s = Some p \<Longrightarrow> c_close s = CloseDone \<Longrightarrow> tstep avail s (s\<lparr>c_inject := None\<rparr>)"
| read_take: "c_read s = ReadIdle \<Longrightarrow> c_outbound s = r # q \<Longrightarrow> tstep avail s (s\<lparr>c_outbound := q, c_read := ReadGot r\<rparr>)"
| read_error: "c_read s = ReadGot (ReadErr e) \<Longrightarrow> tstep avail s (s\<lparr>c_read := ReadIdle, c_failed := True\<rparr>)"
| read_injected: "c_read s = ReadGot (Injected p) \<Longrightarrow> tstep avail s (s\<lparr>c_read := ReadIdle\<rparr>)"
| read_copy: "c_read s = ReadGot (DevPkt n) \<Longrightarrow> tstep avail s (s\<lparr>c_read := ReadCopied (take avail (take n (c_buffer s)))\<rparr>)"
| read_release: "c_read s = ReadCopied d \<Longrightarrow> \<not> consumed_closed s \<Longrightarrow> c_tokens s = 0 \<Longrightarrow>
    tstep avail s (s\<lparr>c_tokens := 1, c_read := ReadIdle, c_given := c_given s @ [d]\<rparr>)"
| read_closed: "c_read s = ReadCopied d \<Longrightarrow> consumed_closed s \<Longrightarrow>
    tstep avail s (s\<lparr>c_read := ReadIdle, c_given := c_given s @ [d]\<rparr>)"
| close_flag: "c_close s = CloseNot \<Longrightarrow> tstep avail s (s\<lparr>c_close := CloseFlag\<rparr>)"
| close_consumed: "c_close s = CloseFlag \<Longrightarrow> tstep avail s (s\<lparr>c_close := CloseConsumed\<rparr>)"
| close_outbound: "c_close s = CloseConsumed \<Longrightarrow> mu_free s \<Longrightarrow> tstep avail s (s\<lparr>c_close := CloseDone\<rparr>)"

inductive treach :: "nat \<Rightarrow> bytes \<Rightarrow> chans \<Rightarrow> bool" for avail buf where
  treach_init: "treach avail buf (init_chans buf)"
| treach_step: "treach avail buf s \<Longrightarrow> tstep avail s s' \<Longrightarrow> treach avail buf s'"

text \<open>
  Who owns the buffer: the token, \<^verbatim>\<open>poll\<close> between receiving it and sending the packet, a result in the
  channel, or \<^verbatim>\<open>Read\<close> until it gives the buffer back. A failed read takes the ownership with it.
\<close>

fun res_owns :: "tunReadResult \<Rightarrow> nat" where
  "res_owns (Injected p) = 0"
| "res_owns _ = 1"

fun poll_owns :: "poll_pc \<Rightarrow> nat" where
  "poll_owns PollWait = 0"
| "poll_owns PollStop = 0"
| "poll_owns (PollLock r) = res_owns r"
| "poll_owns (PollSend r) = res_owns r"
| "poll_owns _ = 1"

fun read_owns :: "read_pc \<Rightarrow> nat" where
  "read_owns ReadIdle = 0"
| "read_owns (ReadGot r) = res_owns r"
| "read_owns (ReadCopied d) = 1"

definition owners :: "chans \<Rightarrow> nat" where
  "owners s = c_tokens s + poll_owns (c_poll s) + sum_list (map res_owns (c_outbound s)) + read_owns (c_read s)"

text \<open>The packets of the device on their way to the caller of \<^verbatim>\<open>Read\<close>.\<close>

fun res_packet :: "nat \<Rightarrow> bytes \<Rightarrow> tunReadResult \<Rightarrow> bytes list" where
  "res_packet avail buf (DevPkt n) = [take avail (take n buf)]"
| "res_packet avail buf _ = []"

fun poll_packets :: "nat \<Rightarrow> bytes \<Rightarrow> poll_pc \<Rightarrow> bytes list" where
  "poll_packets avail buf (PollLock r) = res_packet avail buf r"
| "poll_packets avail buf (PollSend r) = res_packet avail buf r"
| "poll_packets avail buf _ = []"

fun read_packets :: "nat \<Rightarrow> bytes \<Rightarrow> read_pc \<Rightarrow> bytes list" where
  "read_packets avail buf (ReadGot r) = res_packet avail buf r"
| "read_packets avail buf (ReadCopied d) = [d]"
| "read_packets avail buf ReadIdle = []"

definition inflight :: "nat \<Rightarrow> chans \<Rightarrow> bytes list" where
  "inflight avail s = read_packets avail (c_buffer s) (c_read s) @
     concat (map (res_packet avail (c_buffer s)) (c_outbound s)) @ poll_packets avail (c_buffer s) (c_poll s)"

definition chans_inv :: "nat \<Rightarrow> chans \<Rightarrow> bool" where
  "chans_inv avail s \<longleftrightarrow> owners s \<le> 1 \<and> length (c_outbound s) \<le> 1 \<and>
     (c_close s = CloseNot \<longrightarrow> (owners s = 0 \<longleftrightarrow> c_failed s)) \<and> (c_failed s \<longrightarrow> owners s = 0) \<and>
     (c_poll s = PollStop \<longrightarrow> c_close s \<noteq> CloseNot) \<and>
     (c_given s @ inflight avail s = map (take avail) (c_fetched s) \<or>
      owners s = 0 \<and> (\<exists>d. c_given s @ [d] = map (take avail) (c_fetched s)))"

lemma owns_nothing [simp]:
  "res_owns r = 0 \<Longrightarrow> res_packet avail b r = []"
  "read_owns rp = 0 \<Longrightarrow> read_packets avail b rp = []"
  "\<forall>r\<in>set q. res_owns r = 0 \<Longrightarrow> concat (map (res_packet avail b) q) = []"
proof -
  show res: "res_owns r = 0 \<Longrightarrow> res_packet avail b r = []" for r by (cases r) simp_all
  show "read_owns rp = 0 \<Longrightarrow> read_packets avail b rp = []" by (cases rp) (simp_all add: res)
  show "\<forall>r\<in>set q. res_owns r = 0 \<Longrightarrow> concat (map (res_packet avail b) q) = []" by (induction q) (simp_all add: res)
qed

lemma res_owns_cases: "res_owns r = 0 \<or> res_owns r = 1" by (cases r) simp_all

lemma res_packet_dropped: "res_packet avail b r = [] \<or> (\<exists>d. res_packet avail b r = [d])" by (cases r) simp_all

lemma chans_inv_init: "chans_inv avail (init_chans buf)"
  by (simp add: chans_inv_def init_chans_def owners_def inflight_def)

lemma sum_le_Suc_0: "(\<forall>x\<in>set xs. f x = (0 :: nat)) \<Longrightarrow> sum_list (map f xs) = 0" by simp

lemma chans_inv_drop:
  assumes "chans_inv avail s" "c_poll s = PollSend r" "c_close s = CloseDone"
  shows "chans_inv avail (s\<lparr>c_poll := PollWait\<rparr>)"
proof (cases "res_owns r = 0")
  case True
  with assms show ?thesis by (auto simp: chans_inv_def owners_def inflight_def)
next
  case False
  then have "res_owns r = 1" using res_owns_cases [of r] by simp
  with assms res_packet_dropped [of avail "c_buffer s" r] show ?thesis
    by (auto simp: chans_inv_def owners_def inflight_def sum_le_Suc_0)
qed

lemma chans_inv_step: "tstep avail s s' \<Longrightarrow> chans_inv avail s \<Longrightarrow> chans_inv avail s'"
proof (induction rule: tstep.induct)
  case (poll_send_closed s r)
  then show ?case by (simp add: chans_inv_drop)
qed (auto simp: chans_inv_def owners_def inflight_def sum_le_Suc_0 consumed_closed_def)

lemma chans_inv_reach: "treach avail buf s \<Longrightarrow> chans_inv avail s"
  by (induction rule: treach.induct) (simp_all add: chans_inv_init chans_inv_step)

lemma inflight_le_owners: "length (inflight avail s) \<le> owners s"
proof -
  have res: "length (res_packet avail b r) \<le> res_owns r" for b r by (cases r) simp_all
  have out: "length (concat (map (res_packet avail b) q)) \<le> sum_list (map res_owns q)" for b q
  proof (induction q)
    case (Cons r q)
    with res [of b r] show ?case by simp
  qed simp
  have "length (poll_packets avail b pp) \<le> poll_owns pp" for b pp by (cases pp) (simp_all add: res)
  moreover have "length (read_packets avail b rp) \<le> read_owns rp" for b rp by (cases rp) (simp_all add: res)
  ultimately have "length (poll_packets avail (c_buffer s) (c_poll s)) \<le> poll_owns (c_poll s)"
    "length (read_packets avail (c_buffer s) (c_read s)) \<le> read_owns (c_read s)" by blast+
  with out [of "c_buffer s" "c_outbound s"] show ?thesis
    unfolding owners_def inflight_def length_append by linarith
qed

text \<open>
  C6. The packets that \<^verbatim>\<open>Read\<close> delivers from the device are those that \<^verbatim>\<open>poll\<close> got, unaltered, in order and without a
  gap, however the goroutines interleave, and \<^verbatim>\<open>poll\<close> is at most one packet ahead: the shared buffer
  is not overwritten before \<^verbatim>\<open>Read\<close> is done with it.
\<close>

theorem reads_in_order:
  assumes "treach avail buf s"
  shows "prefix (c_given s) (map (take avail) (c_fetched s)) \<and> length (c_fetched s) \<le> length (c_given s) + 1"
proof -
  have inv: "chans_inv avail s" by (rule chans_inv_reach [OF assms])
  then consider "c_given s @ inflight avail s = map (take avail) (c_fetched s)"
    | d where "c_given s @ [d] = map (take avail) (c_fetched s)"
    by (auto simp: chans_inv_def)
  then show ?thesis
  proof cases
    case 1
    have "length (inflight avail s) \<le> 1"
      using inflight_le_owners [of avail s] inv by (simp add: chans_inv_def)
    moreover have "length (c_given s) + length (inflight avail s) = length (c_fetched s)"
      using arg_cong [OF 1, of length] by simp
    ultimately show ?thesis unfolding prefix_def using 1 [symmetric] by simp
  next
    case 2
    have "length (c_given s) + 1 = length (c_fetched s)"
      using arg_cong [OF 2, of length] by simp
    then show ?thesis unfolding prefix_def using 2 [symmetric] by simp
  qed
qed

text \<open>
  Giving the buffer back never blocks \<^verbatim>\<open>Read\<close>: whenever it has copied a packet out of the buffer, the channel
  \<^verbatim>\<open>bufferConsumed\<close> is empty, and \<^verbatim>\<open>poll\<close> is neither reading nor about to send.
\<close>

theorem release_never_blocks:
  assumes "treach avail buf s" and "c_read s = ReadCopied d"
  shows "c_tokens s = 0 \<and> poll_owns (c_poll s) = 0 \<and> (\<exists>s'. tstep avail s s' \<and> c_read s' = ReadIdle \<and> c_given s' = c_given s @ [d])"
proof -
  have z: "c_tokens s = 0" "poll_owns (c_poll s) = 0"
    using chans_inv_reach [OF assms(1)] assms(2) by (simp_all add: chans_inv_def owners_def)
  show ?thesis
  proof (cases "consumed_closed s")
    case True
    from read_closed [OF assms(2) this, of avail] z show ?thesis by fastforce
  next
    case False
    from read_release [OF assms(2) this z(1), of avail] z show ?thesis by fastforce
  qed
qed

text \<open>
  C13. There is no deadlock: until \<^verbatim>\<open>Close\<close> is called or a read of the device fails, in every state \<^verbatim>\<open>poll\<close>, \<^verbatim>\<open>Read\<close>
  or the goroutine that injects a packet can go on.
\<close>

theorem no_deadlock:
  assumes reach: "treach avail buf s" and opn: "c_close s = CloseNot" and ok: "\<not> c_failed s"
  shows "\<exists>s'. tstep avail s s' \<and> (c_poll s' \<noteq> c_poll s \<or> c_read s' \<noteq> c_read s \<or> c_inject s \<noteq> None \<and> c_inject s' = None)"
proof -
  have one: "owners s = 1" using chans_inv_reach [OF reach] opn ok by (simp add: chans_inv_def)
  have reader: ?thesis if busy: "c_outbound s \<noteq> [] \<or> c_read s \<noteq> ReadIdle"
  proof (cases "c_read s")
    case ReadIdle
    with busy obtain r q where "c_outbound s = r # q" by (cases "c_outbound s") auto
    from read_take [OF ReadIdle this, of avail] ReadIdle show ?thesis by fastforce
  next
    case (ReadGot r)
    then show ?thesis
      using read_error [of s _ avail] read_injected [of s _ avail] read_copy [of s _ avail] by (cases r) fastforce+
  next
    case (ReadCopied d)
    with one have "c_tokens s = 0" by (simp add: owners_def)
    moreover have "\<not> consumed_closed s" using opn by (simp add: consumed_closed_def)
    ultimately show ?thesis using read_release [OF ReadCopied, of avail] ReadCopied by fastforce
  qed
  have inject: ?thesis if "c_inject s = Some p" for p
    using reader inject_send [OF that, of avail] opn that by (cases "c_outbound s = []") fastforce+
  show ?thesis
  proof (cases "c_poll s")
    case PollWait
    with one have "c_tokens s = Suc 0 \<or> c_outbound s \<noteq> [] \<or> c_read s \<noteq> ReadIdle" by (auto simp: owners_def)
    with reader poll_consumed [OF PollWait, of 0 avail] PollWait show ?thesis by fastforce
  next
    case PollCheck
    from poll_open [OF this opn, of avail] PollCheck show ?thesis by fastforce
  next
    case PollRead
    from poll_error [OF this, of avail] PollRead show ?thesis by fastforce
  next
    case (PollLock r)
    with inject poll_lock [OF this, of avail] show ?thesis by (cases "c_inject s") (fastforce simp: mu_free_def)+
  next
    case (PollSend r)
    with reader poll_send [OF this, of avail] opn show ?thesis by (cases "c_outbound s = []") fastforce+
  next
    case PollStop
    with chans_inv_reach [OF reach] opn show ?thesis by (simp add: chans_inv_def)
  qed
qed

text \<open>
  A failed read of the device is the last: once \<^verbatim>\<open>Read\<close> has reported it, \<^verbatim>\<open>poll\<close> gets no further packet.
\<close>

theorem failed_read_is_last:
  assumes "treach avail buf s" and "c_failed s" and "tstep avail s s'"
  shows "c_fetched s' = c_fetched s \<and> c_failed s'"
proof -
  have "owners s = 0" using chans_inv_reach [OF assms(1)] assms(2) by (simp add: chans_inv_def)
  with assms(3,2) show ?thesis by (cases rule: tstep.cases) (auto simp: owners_def)
qed

text \<open>
  C39. \<^verbatim>\<open>Close\<close> waits for a reader: while \<^verbatim>\<open>poll\<close> or an injecting goroutine holds \<^verbatim>\<open>outboundMu\<close> and waits for room in
  \<^verbatim>\<open>outbound\<close>, \<^verbatim>\<open>Close\<close> does not return, whatever the other goroutines do, unless \<^verbatim>\<open>Read\<close> is called.
\<close>

theorem close_waits_for_read:
  assumes "(\<lambda>a b. tstep avail a b \<and> c_read b = ReadIdle)\<^sup>*\<^sup>* s s'"
    and "c_close s = CloseConsumed" and "c_outbound s \<noteq> []" and "\<not> mu_free s" and "c_read s = ReadIdle"
  shows "c_close s' = CloseConsumed"
proof -
  have "c_close s' = CloseConsumed \<and> c_outbound s' \<noteq> [] \<and> \<not> mu_free s' \<and> c_read s' = ReadIdle"
    using assms
  proof (induction rule: rtranclp_induct)
    case (step a b)
    then have "tstep avail a b" "c_read b = ReadIdle" "c_close a = CloseConsumed" "c_outbound a \<noteq> []" "\<not> mu_free a"
      "c_read a = ReadIdle" by simp_all
    then show ?case by (cases rule: tstep.cases) (auto simp: mu_free_def)
  qed simp
  then show ?thesis by simp
qed

text \<open>A run in which one packet is read from the device and copied, and one in which \<^verbatim>\<open>Close\<close> is stuck.\<close>

definition run_copied :: chans where
  "run_copied = \<lparr>c_buffer = [1, 2], c_tokens = 0, c_outbound = [], c_inject = None, c_poll = PollWait, c_read = ReadCopied [1, 2],
     c_close = CloseNot, c_fetched = [[1, 2]], c_given = [], c_failed = False\<rparr>"

lemma run_copied: "treach 1500 [0, 0] run_copied"
proof -
  have "treach 1500 [0, 0] (init_chans [0, 0])" by (rule treach_init)
  from treach_step [OF this poll_consumed, of 0] have "treach 1500 [0, 0] ((init_chans [0, 0])\<lparr>c_tokens := 0, c_poll := PollCheck\<rparr>)"
    by (simp add: init_chans_def)
  from treach_step [OF this poll_open] have "treach 1500 [0, 0] ((init_chans [0, 0])\<lparr>c_tokens := 0, c_poll := PollRead\<rparr>)"
    by (simp add: init_chans_def)
  from treach_step [OF this poll_packet, of "[1, 2]"] have "treach 1500 [0, 0] (run_copied\<lparr>c_poll := PollLock (DevPkt 2), c_read := ReadIdle\<rparr>)"
    by (simp add: init_chans_def run_copied_def numeral_2_eq_2)
  from treach_step [OF this poll_lock, of "DevPkt 2"] have "treach 1500 [0, 0] (run_copied\<lparr>c_poll := PollSend (DevPkt 2), c_read := ReadIdle\<rparr>)"
    by (simp add: run_copied_def mu_free_def)
  from treach_step [OF this poll_send, of "DevPkt 2"] have "treach 1500 [0, 0] (run_copied\<lparr>c_outbound := [DevPkt 2], c_read := ReadIdle\<rparr>)"
    by (simp add: run_copied_def)
  from treach_step [OF this read_take, of "DevPkt 2" "[]"] have "treach 1500 [0, 0] (run_copied\<lparr>c_read := ReadGot (DevPkt 2)\<rparr>)"
    by (simp add: run_copied_def)
  from treach_step [OF this read_copy, of 2] show ?thesis by (simp add: run_copied_def)
qed

definition run_failed :: chans where
  "run_failed = \<lparr>c_buffer = [], c_tokens = 0, c_outbound = [], c_inject = None, c_poll = PollWait, c_read = ReadIdle,
     c_close = CloseNot, c_fetched = [], c_given = [], c_failed = True\<rparr>"

lemma run_failed: "treach 1500 [] run_failed"
proof -
  let ?i = "init_chans []" and ?e = "ReadErr ErrEOF"
  have "treach 1500 [] ?i" by (rule treach_init)
  from treach_step [OF this poll_consumed, of 0] have "treach 1500 [] (?i\<lparr>c_tokens := 0, c_poll := PollCheck\<rparr>)"
    by (simp add: init_chans_def)
  from treach_step [OF this poll_open] have "treach 1500 [] (?i\<lparr>c_tokens := 0, c_poll := PollRead\<rparr>)"
    by (simp add: init_chans_def)
  from treach_step [OF this poll_error, of ErrEOF] have "treach 1500 [] (?i\<lparr>c_tokens := 0, c_poll := PollLock ?e\<rparr>)"
    by (simp add: init_chans_def)
  from treach_step [OF this poll_lock, of ?e] have "treach 1500 [] (?i\<lparr>c_tokens := 0, c_poll := PollSend ?e\<rparr>)"
    by (simp add: init_chans_def mu_free_def)
  from treach_step [OF this poll_send, of ?e] have "treach 1500 [] (?i\<lparr>c_tokens := 0, c_outbound := [?e]\<rparr>)"
    by (simp add: init_chans_def)
  from treach_step [OF this read_take, of ?e "[]"] have "treach 1500 [] (?i\<lparr>c_tokens := 0, c_read := ReadGot ?e\<rparr>)"
    by (simp add: init_chans_def)
  from treach_step [OF this read_error, of ErrEOF] show ?thesis by (simp add: init_chans_def run_failed_def)
qed

definition run_stuck :: chans where
  "run_stuck = \<lparr>c_buffer = [], c_tokens = 1, c_outbound = [Injected [1]], c_inject = Some [2], c_poll = PollWait, c_read = ReadIdle,
     c_close = CloseConsumed, c_fetched = [], c_given = [], c_failed = False\<rparr>"

lemma run_stuck: "treach 1500 [] run_stuck"
proof -
  let ?i = "init_chans []"
  have "treach 1500 [] ?i" by (rule treach_init)
  from treach_step [OF this inject_lock, of "[1]"] have "treach 1500 [] (?i\<lparr>c_inject := Some [1]\<rparr>)"
    by (simp add: init_chans_def mu_free_def)
  from treach_step [OF this inject_send, of "[1]"] have "treach 1500 [] (?i\<lparr>c_outbound := [Injected [1]]\<rparr>)"
    by (simp add: init_chans_def)
  from treach_step [OF this inject_lock, of "[2]"] have "treach 1500 [] (?i\<lparr>c_outbound := [Injected [1]], c_inject := Some [2]\<rparr>)"
    by (simp add: init_chans_def mu_free_def)
  from treach_step [OF this close_flag]
  have "treach 1500 [] (?i\<lparr>c_outbound := [Injected [1]], c_inject := Some [2], c_close := CloseFlag\<rparr>)"
    by (simp add: init_chans_def)
  from treach_step [OF this close_consumed] show ?thesis by (simp add: init_chans_def run_stuck_def)
qed

theorem reads_in_order_witness:
  "treach 1500 [0, 0] run_copied \<and> prefix (c_given run_copied) [[1, 2]] \<and> length (c_fetched run_copied) \<le> length (c_given run_copied) + 1"
  using reads_in_order [OF run_copied] run_copied by (simp add: run_copied_def)

theorem release_never_blocks_witness:
  "\<exists>s'. tstep 1500 run_copied s' \<and> c_given s' = [[1, 2]]"
  using release_never_blocks [OF run_copied, of "[1, 2]"] by (auto simp: run_copied_def)

theorem no_deadlock_witness:
  "\<exists>s'. tstep 1500 run_copied s' \<and> (c_poll s' \<noteq> PollWait \<or> c_read s' \<noteq> ReadCopied [1, 2])"
  using no_deadlock [OF run_copied] by (auto simp: run_copied_def)

theorem failed_read_is_last_witness:
  "\<exists>s'. tstep 1500 run_failed s' \<and> c_fetched s' = [] \<and> c_failed s'"
proof -
  have "tstep 1500 run_failed (run_failed\<lparr>c_close := CloseFlag\<rparr>)"
    by (rule close_flag) (simp add: run_failed_def)
  with failed_read_is_last [OF run_failed _ this] show ?thesis by (auto simp: run_failed_def)
qed

theorem close_waits_for_read_witness:
  "treach 1500 [] run_stuck \<and>
   (\<exists>s'. (\<lambda>a b. tstep 1500 a b \<and> c_read b = ReadIdle)\<^sup>*\<^sup>* run_stuck s' \<and> c_poll s' = PollCheck \<and> c_close s' = CloseConsumed)"
proof -
  let ?s' = "run_stuck\<lparr>c_tokens := 0, c_poll := PollCheck\<rparr>"
  have "tstep 1500 run_stuck ?s'" by (rule poll_consumed) (simp_all add: run_stuck_def)
  then have "(\<lambda>a b. tstep 1500 a b \<and> c_read b = ReadIdle)\<^sup>*\<^sup>* run_stuck ?s'"
    by (intro r_into_rtranclp) (simp add: run_stuck_def)
  with close_waits_for_read [OF this] run_stuck show ?thesis
    by (intro conjI exI [of _ ?s']) (simp_all add: run_stuck_def mu_free_def)
qed

end
