(* ===== verification/Wgcfg.thy ===== *)
theory Wgcfg
  imports Netmap Tsaddr "HOL-Library.AList" "HOL-Library.List_Lexorder" "HOL-Library.Multiset"
begin

text \<open>
  The WireGuard configuration, \<^verbatim>\<open>wgengine/wgcfg\<close>: its data, its text form of the WireGuard user-space API,
  the reconfiguration of a device by difference, and the configuration that a network map
  defines (\<^verbatim>\<open>nmcfg\<close>).

  The JSON form of endpoints and the text of prefixes involve \<^verbatim>\<open>inet.af/netaddr\<close>; they and the device of wireguard-go
  are the fields of the records \<open>uapi_env\<close> and \<open>wg_device\<close>, arguments of the definitions. The laws that
  the theorems assume of them are \<open>uapi_laws\<close> and \<open>device_laws\<close>. A Go map that the code ranges over is
  an association list.
\<close>

section \<open>Data\<close>

record 'ip endpoints =
  ep_PublicKey :: wgkey
  ep_DiscoKey :: wgkey
  ep_IPPorts :: "'ip ipport list"

record 'ip wg_peer =
  wp_PublicKey :: wgkey
  wp_AllowedIPs :: "'ip ipprefix list"
  wp_Endpoints :: "'ip endpoints"
  wp_PersistentKeepalive :: u16

record 'ip wg_config =
  wc_Name :: string
  wc_PrivateKey :: wgkey
  wc_Addresses :: "'ip ipprefix list"
  wc_MTU :: u16
  wc_DNS :: "'ip list"
  wc_Peers :: "'ip wg_peer list"

definition zero_endpoints :: "'ip endpoints" where
  "zero_endpoints = \<lparr>ep_PublicKey = zero_key, ep_DiscoKey = zero_key, ep_IPPorts = []\<rparr>"

definition zero_peer :: "'ip wg_peer" where
  "zero_peer = \<lparr>wp_PublicKey = zero_key, wp_AllowedIPs = [], wp_Endpoints = zero_endpoints, wp_PersistentKeepalive = 0\<rparr>"

definition zero_config :: "'ip wg_config" where
  "zero_config = \<lparr>wc_Name = [], wc_PrivateKey = zero_key, wc_Addresses = [], wc_MTU = 0, wc_DNS = [], wc_Peers = []\<rparr>"

text \<open>The map \<^verbatim>\<open>ipps\<close> counts the ports of \<^verbatim>\<open>s\<close> up and those of \<^verbatim>\<open>t\<close> down.\<close>

definition bump :: "int \<Rightarrow> 'a \<Rightarrow> ('a \<times> int) list \<Rightarrow> ('a \<times> int) list" where
  "bump d x m = AList.update x ((case map_of m x of None \<Rightarrow> 0 | Some n \<Rightarrow> n) + d) m"

definition EqualUnordered :: "'a list \<Rightarrow> 'a list \<Rightarrow> bool" where
  "EqualUnordered s t =
     (if length s \<noteq> length t then False
      else let ipps = fold (bump (- 1)) t (fold (bump 1) s [])
           in list_all (\<lambda>(k, n). \<not> n \<noteq> 0) ipps)"

definition Endpoints_Equal :: "'ip endpoints \<Rightarrow> 'ip endpoints \<Rightarrow> bool" where
  "Endpoints_Equal e f =
     (if ep_PublicKey e \<noteq> ep_PublicKey f then False
      else if ep_DiscoKey e \<noteq> ep_DiscoKey f then False
      else EqualUnordered (ep_IPPorts e) (ep_IPPorts f))"

fun peer_with_key :: "wgkey \<Rightarrow> 'ip wg_peer list \<Rightarrow> 'ip wg_peer \<times> bool" where
  "peer_with_key k [] = (zero_peer, False)"
| "peer_with_key k (p # ps) = (if wp_PublicKey p = k then (p, True) else peer_with_key k ps)"

definition PeerWithKey :: "'ip wg_config \<Rightarrow> wgkey \<Rightarrow> 'ip wg_peer \<times> bool" where
  "PeerWithKey config k = peer_with_key k (wc_Peers config)"

section \<open>Writing the user-space API\<close>

record 'ip uapi_env =
  ue_json :: "'ip endpoints \<Rightarrow> string option"
  ue_unjson :: "'ip endpoints \<Rightarrow> string \<Rightarrow> 'ip endpoints option"
  ue_prefix_str :: "'ip ipprefix \<Rightarrow> string"
  ue_parse_prefix :: "string \<Rightarrow> 'ip ipprefix option"
  ue_write :: "nat \<Rightarrow> string option"

datatype uapi_error =
    ErrMarshal | ErrToUAPI string | ErrCutLine string | ErrInvalidKey string | ErrKeySize string | ErrUnexpectedKey string
  | ErrEndpoint string | ErrKeepalive string | ErrAllowedIP string | ErrProtocolVersion string | ErrTokenTooLong | ErrDeviceGet string
  | ErrDeviceSet string

text \<open>
  The lines written so far and \<^verbatim>\<open>stickyErr\<close>; \<open>ue_write\<close> gives the result of the \<open>i\<close>th write.
\<close>

type_synonym uapi_out = "(string \<times> string) list \<times> string option"

definition set_line :: "'ip uapi_env \<Rightarrow> string \<Rightarrow> string \<Rightarrow> uapi_out \<Rightarrow> uapi_out" where
  "set_line e k v st =
     (case st of (out, stickyErr) \<Rightarrow>
        if stickyErr \<noteq> None then st
        else case ue_write e (length out) of
               Some err \<Rightarrow> (out, Some err)
             | None \<Rightarrow> (out @ [(k, v)], None))"

definition setUint16 :: "'ip uapi_env \<Rightarrow> string \<Rightarrow> u16 \<Rightarrow> uapi_out \<Rightarrow> uapi_out" where
  "setUint16 e k v st = set_line e k (fmt_nat (unat v)) st"

definition setPeer :: "'ip uapi_env \<Rightarrow> 'ip wg_peer \<Rightarrow> uapi_out \<Rightarrow> uapi_out" where
  "setPeer e p st = set_line e ''public_key'' (Key_HexString (wp_PublicKey p)) st"

definition cidrsEqual :: "'ip ipprefix list \<Rightarrow> 'ip ipprefix list \<Rightarrow> bool" where
  "cidrsEqual x y =
     (if length x \<noteq> length y then False
      else if list_all (\<lambda>i. x ! i = y ! i) [0..<length x] then True
      else list_all (\<lambda>v. v \<in> set x) y)"

text \<open>An early return of \<^verbatim>\<open>ToUAPI\<close>, with what has been written so far, is \<open>Inl\<close>.\<close>

definition set_endpoint :: "'ip uapi_env \<Rightarrow> 'ip endpoints \<Rightarrow> 'ip endpoints \<Rightarrow> uapi_out \<Rightarrow> uapi_out + uapi_out" where
  "set_endpoint e old_ep new_ep st =
     (if \<not> Endpoints_Equal old_ep new_ep
      then case ue_json e new_ep of None \<Rightarrow> Inl st | Some buf \<Rightarrow> Inr (set_line e ''endpoint'' buf st)
      else Inr st)"

definition set_allowed :: "'ip uapi_env \<Rightarrow> 'ip ipprefix list \<Rightarrow> 'ip ipprefix list \<Rightarrow> uapi_out \<Rightarrow> uapi_out" where
  "set_allowed e old_ips new_ips st =
     (if \<not> cidrsEqual old_ips new_ips
      then fold (\<lambda>ipp. set_line e ''allowed_ip'' (ue_prefix_str e ipp)) new_ips (set_line e ''replace_allowed_ips'' ''true'' st)
      else st)"

definition set_peer_lines :: "'ip uapi_env \<Rightarrow> 'ip wg_peer \<Rightarrow> 'ip wg_peer \<Rightarrow> uapi_out \<Rightarrow> uapi_out + uapi_out" where
  "set_peer_lines e oldPeer p st =
     (case set_endpoint e (wp_Endpoints oldPeer) (wp_Endpoints p) (set_line e ''protocol_version'' ''1'' (setPeer e p st)) of
        Inl st \<Rightarrow> Inl st
      | Inr st \<Rightarrow>
          (let st = set_allowed e (wp_AllowedIPs oldPeer) (wp_AllowedIPs p) st
           in Inr (if wp_PersistentKeepalive oldPeer \<noteq> wp_PersistentKeepalive p
                   then setUint16 e ''persistent_keepalive_interval'' (wp_PersistentKeepalive p) st else st)))"

definition old_peer :: "(wgkey \<times> 'ip wg_peer) list \<Rightarrow> wgkey \<Rightarrow> 'ip wg_peer" where
  "old_peer old k = (case map_of old k of None \<Rightarrow> zero_peer | Some p \<Rightarrow> p)"

fun set_peers :: "'ip uapi_env \<Rightarrow> (wgkey \<times> 'ip wg_peer) list \<Rightarrow> 'ip wg_peer list \<Rightarrow> uapi_out \<Rightarrow> uapi_out + uapi_out" where
  "set_peers e old [] st = Inr st"
| "set_peers e old (p # ps) st =
     (case set_peer_lines e (old_peer old (wp_PublicKey p)) p st of
        Inl st \<Rightarrow> Inl st
      | Inr st \<Rightarrow> set_peers e old ps st)"

definition old_peers :: "'ip wg_peer list \<Rightarrow> (wgkey \<times> 'ip wg_peer) list" where
  "old_peers ps = fold (\<lambda>p. AList.update (wp_PublicKey p) p) ps []"

text \<open>The lines written, and the error if there is one.\<close>

definition ToUAPI :: "'ip uapi_env \<Rightarrow> 'ip wg_config \<Rightarrow> 'ip wg_config \<Rightarrow> (string \<times> string) list \<times> uapi_error option" where
  "ToUAPI e cfg prev =
     (let st = (if wc_PrivateKey prev \<noteq> wc_PrivateKey cfg
                then set_line e ''private_key'' (Key_HexString (wc_PrivateKey cfg)) ([], None) else ([], None));
          old = old_peers (wc_Peers prev)
      in case set_peers e old (wc_Peers cfg) st of
           Inl (out, stickyErr) \<Rightarrow> (out, Some ErrMarshal)
         | Inr st \<Rightarrow>
             (let old = fold (\<lambda>p. AList.delete (wp_PublicKey p)) (wc_Peers cfg) old;
                  (out, stickyErr) = fold (\<lambda>(k, p) st. set_line e ''remove'' ''true'' (setPeer e p st)) old st
              in (out, map_option ErrToUAPI stickyErr)))"

definition line_text :: "string \<times> string \<Rightarrow> string" where
  "line_text kv = fst kv @ ''='' @ snd kv @ [CHR 0x0A]"

definition uapi_text :: "(string \<times> string) list \<Rightarrow> string" where
  "uapi_text kvs = concat (map line_text kvs)"

section \<open>Reading the user-space API\<close>

text \<open>
  \<^verbatim>\<open>bufio.Scanner\<close> with its default split function: lines without their line ends, the last one only if
  it is not empty. A line that does not fit into its buffer ends the scan with an error.
\<close>

definition MaxScanTokenSize :: nat where "MaxScanTokenSize = 65536"

definition dropCR :: "string \<Rightarrow> string" where
  "dropCR l = (if l \<noteq> [] \<and> last l = CHR 0x0D then butlast l else l)"

definition scan_lines :: "string \<Rightarrow> string list" where
  "scan_lines s = (let ls = split_on (CHR 0x0A) s in if last ls = [] then butlast ls else ls)"

definition memROCut :: "string \<Rightarrow> char \<Rightarrow> string \<times> string \<times> bool" where
  "memROCut s sep = (if sep \<in> set s then (takeWhile (\<lambda>c. c \<noteq> sep) s, drop 1 (dropWhile (\<lambda>c. c \<noteq> sep) s), True) else ([], [], False))"

text \<open>\<^verbatim>\<open>hex.Decode\<close> panics when the key has more than 32 bytes.\<close>

definition parseKeyHex :: "string \<Rightarrow> (uapi_error + wgkey) option" where
  "parseKeyHex s =
     (let (k, ok) = hex_decode s
      in if length k > Keys.Size then None
         else if \<not> ok then Some (Inl (ErrInvalidKey s))
         else if length k \<noteq> Keys.Size then Some (Inl (ErrKeySize s))
         else Some (Inr k))"

definition ParseUint16 :: "string \<Rightarrow> u16 option" where
  "ParseUint16 s =
     (if s = [] \<or> \<not> list_all isdigit s \<or> dec_value s \<ge> 65536 then None else Some (of_nat (dec_value s)))"

definition handleDeviceLine :: "'ip wg_config \<Rightarrow> string \<Rightarrow> string \<Rightarrow> (uapi_error + 'ip wg_config) option" where
  "handleDeviceLine cfg k v =
     (if k = ''private_key''
      then do { r \<leftarrow> parseKeyHex v; Some (map_sum id (\<lambda>pk. cfg\<lparr>wc_PrivateKey := pk\<rparr>) r) }
      else if k = ''listen_port'' \<or> k = ''fwmark'' then Some (Inr cfg)
      else Some (Inl (ErrUnexpectedKey k)))"

definition handlePublicKeyLine :: "'ip wg_config \<Rightarrow> string \<Rightarrow> (uapi_error + 'ip wg_config) option" where
  "handlePublicKeyLine cfg v =
     do { r \<leftarrow> parseKeyHex v;
          Some (map_sum id (\<lambda>k. cfg\<lparr>wc_Peers := wc_Peers cfg @ [zero_peer\<lparr>wp_PublicKey := k\<rparr>]\<rparr>) r) }"

text \<open>\<^verbatim>\<open>peer\<close> points to the last element of \<^verbatim>\<open>cfg.Peers\<close>.\<close>

definition upd_last :: "('ip wg_peer \<Rightarrow> 'ip wg_peer) \<Rightarrow> 'ip wg_config \<Rightarrow> 'ip wg_config" where
  "upd_last f cfg = cfg\<lparr>wc_Peers := butlast (wc_Peers cfg) @ [f (last (wc_Peers cfg))]\<rparr>"

definition ignored_keys :: "string list" where
  "ignored_keys = [''replace_allowed_ips'', ''preshared_key'', ''last_handshake_time_sec'', ''last_handshake_time_nsec'',
     ''tx_bytes'', ''rx_bytes'']"

definition handlePeerLine :: "'ip uapi_env \<Rightarrow> 'ip wg_config \<Rightarrow> string \<Rightarrow> string \<Rightarrow> uapi_error + 'ip wg_config" where
  "handlePeerLine e cfg k v =
     (if k = ''endpoint''
      then case ue_unjson e (wp_Endpoints (last (wc_Peers cfg))) v of
             None \<Rightarrow> Inl (ErrEndpoint v)
           | Some ep \<Rightarrow> Inr (upd_last (\<lambda>p. p\<lparr>wp_Endpoints := ep\<rparr>) cfg)
      else if k = ''persistent_keepalive_interval''
      then case ParseUint16 v of
             None \<Rightarrow> Inl (ErrKeepalive v)
           | Some n \<Rightarrow> Inr (upd_last (\<lambda>p. p\<lparr>wp_PersistentKeepalive := n\<rparr>) cfg)
      else if k = ''allowed_ip''
      then case ue_parse_prefix e v of
             None \<Rightarrow> Inl (ErrAllowedIP v)
           | Some ipp \<Rightarrow> Inr (upd_last (\<lambda>p. p\<lparr>wp_AllowedIPs := wp_AllowedIPs p @ [ipp]\<rparr>) cfg)
      else if k = ''protocol_version''
      then if v \<noteq> ''1'' then Inl (ErrProtocolVersion v) else Inr cfg
      else if k \<in> set ignored_keys then Inr cfg
      else Inl (ErrUnexpectedKey k))"

fun from_lines :: "'ip uapi_env \<Rightarrow> bool \<Rightarrow> string list \<Rightarrow> 'ip wg_config \<Rightarrow> (uapi_error + 'ip wg_config) option" where
  "from_lines e deviceConfig [] cfg = Some (Inr cfg)"
| "from_lines e deviceConfig (l # ls) cfg =
     (if length l \<ge> MaxScanTokenSize then Some (Inl ErrTokenTooLong)
      else let line = dropCR l
      in if line = [] then from_lines e deviceConfig ls cfg
         else let (k, v, ok) = memROCut line (CHR ''='')
         in if \<not> ok then Some (Inl (ErrCutLine line))
            else do {
              let isKey = (k = ''public_key'');
              r \<leftarrow> (if isKey then handlePublicKeyLine cfg v
                    else if deviceConfig then handleDeviceLine cfg k v
                    else Some (handlePeerLine e cfg k v));
              case r of
                Inl err \<Rightarrow> Some (Inl err)
              | Inr cfg \<Rightarrow> from_lines e (deviceConfig \<and> \<not> isKey) ls cfg })"

definition FromUAPI :: "'ip uapi_env \<Rightarrow> string \<Rightarrow> (uapi_error + 'ip wg_config) option" where
  "FromUAPI e s = from_lines e True (scan_lines s) zero_config"

section \<open>Devices\<close>

record 'd wg_device =
  wd_IpcGetOperation :: "'d \<Rightarrow> string \<times> string option"
  wd_IpcSetOperation :: "string \<Rightarrow> 'd \<Rightarrow> 'd \<times> string option"

definition DeviceConfig :: "'ip uapi_env \<Rightarrow> 'd wg_device \<Rightarrow> 'd \<Rightarrow> (uapi_error + 'ip wg_config) option" where
  "DeviceConfig e w d =
     do { let (text, setErr) = wd_IpcGetOperation w d;
          r \<leftarrow> FromUAPI e text;
          case setErr of
            Some err \<Rightarrow> Some (Inl (ErrDeviceGet err))
          | None \<Rightarrow> Some (map_sum id (\<lambda>cfg. cfg\<lparr>wc_Peers := sort_key wp_PublicKey (wc_Peers cfg)\<rparr>) r) }"

definition ReconfigDevice ::
  "'ip uapi_env \<Rightarrow> 'd wg_device \<Rightarrow> 'ip wg_config \<Rightarrow> 'd \<Rightarrow> ('d \<times> uapi_error option) option" where
  "ReconfigDevice e w cfg d =
     do { r \<leftarrow> DeviceConfig e w d;
          case r of
            Inl err \<Rightarrow> Some (d, Some err)
          | Inr prev \<Rightarrow>
              (let (out, err) = ToUAPI e cfg prev;
                   (d, setErr) = wd_IpcSetOperation w (uapi_text out) d
               in Some (d, case setErr of Some x \<Rightarrow> Some (ErrDeviceSet x) | None \<Rightarrow> err)) }"

section \<open>Comparisons\<close>

lemma map_of_bump: "map_of (bump d x m) y = (if x = y then Some ((case map_of m x of None \<Rightarrow> 0 | Some n \<Rightarrow> n) + d) else map_of m y)"
  by (simp add: bump_def update_conv')

definition tally :: "('a \<times> int) list \<Rightarrow> 'a \<Rightarrow> int" where
  "tally m x = (case map_of m x of None \<Rightarrow> 0 | Some n \<Rightarrow> n)"

lemma tally_bump: "tally (bump d x m) y = tally m y + (if x = y then d else 0)"
  by (simp add: tally_def map_of_bump)

lemma tally_fold_bump: "tally (fold (bump d) xs m) y = tally m y + d * int (count (mset xs) y)"
  by (induction xs arbitrary: m) (simp_all add: tally_bump algebra_simps)

lemma distinct_fold_bump: "distinct (map fst m) \<Longrightarrow> distinct (map fst (fold (bump d) xs m))"
  by (induction xs arbitrary: m) (simp_all add: bump_def distinct_update)

lemma all_zero_iff: "distinct (map fst m) \<Longrightarrow> list_all (\<lambda>(k, n). n = 0) m \<longleftrightarrow> (\<forall>x. tally m x = 0)"
  by (force simp: list_all_iff tally_def split: option.splits dest: map_of_SomeD)

lemma EqualUnordered_mset: "EqualUnordered s t \<longleftrightarrow> mset s = mset t"
proof (cases "length s = length t")
  case True
  let ?m = "fold (bump (- 1)) t (fold (bump 1) s [])"
  have "tally ?m x = int (count (mset s) x) - int (count (mset t) x)" for x
    by (simp add: tally_fold_bump) (simp add: tally_def)
  moreover have "distinct (map fst ?m)" by (intro distinct_fold_bump) simp
  ultimately show ?thesis using True by (simp add: EqualUnordered_def all_zero_iff multiset_eq_iff)
next
  case False
  then show ?thesis by (auto simp: EqualUnordered_def dest: mset_eq_length)
qed

lemma Endpoints_Equal_iff:
  "Endpoints_Equal e f \<longleftrightarrow> ep_PublicKey e = ep_PublicKey f \<and> ep_DiscoKey e = ep_DiscoKey f \<and> mset (ep_IPPorts e) = mset (ep_IPPorts f)"
  by (simp add: Endpoints_Equal_def EqualUnordered_mset)

lemma Endpoints_Equal_refl [simp]: "Endpoints_Equal e e" by (simp add: Endpoints_Equal_iff)

lemma Endpoints_Equal_zero: "Endpoints_Equal zero_endpoints e \<Longrightarrow> e = zero_endpoints"
  by (cases e) (simp add: Endpoints_Equal_iff zero_endpoints_def)

lemma cidrsEqual_iff: "cidrsEqual x y \<longleftrightarrow> length x = length y \<and> set y \<subseteq> set x"
proof (cases "length x = length y")
  case True
  have "list_all (\<lambda>i. x ! i = y ! i) [0..<length x] \<Longrightarrow> x = y"
    using True by (intro nth_equalityI) (simp_all add: list_all_iff)
  then show ?thesis
    using True unfolding cidrsEqual_def list_all_iff [of "\<lambda>v. v \<in> set x"] subset_iff by metis
qed (simp add: cidrsEqual_def)

lemma cidrsEqual_Nil [simp]: "cidrsEqual [] y \<longleftrightarrow> y = []" by (auto simp: cidrsEqual_iff)

text \<open>
  C40. \<^verbatim>\<open>cidrsEqual\<close> decides whether two lists without duplicates have the same elements. With
  duplicates it can take different sets for equal.
\<close>

theorem cidrsEqual_sets:
  assumes "distinct x" and "distinct y"
  shows "(cidrsEqual x y \<longleftrightarrow> set x = set y) \<and>
    (\<forall>a b. a \<noteq> b \<longrightarrow> cidrsEqual [a, b] [a, a] \<and> \<not> cidrsEqual [a, a] [a, b])"
proof -
  have "cidrsEqual x y \<longleftrightarrow> set x = set y"
    using assms card_subset_eq [of "set x" "set y"] distinct_card [of x] distinct_card [of y]
    by (auto simp: cidrsEqual_iff)
  then show ?thesis by (simp add: cidrsEqual_iff)
qed

theorem cidrsEqual_sets_witness:
  "cidrsEqual [IPPrefix (V4 10 0 0 0) 8, IPPrefix (V4 10 0 0 1) 32] [IPPrefix (V4 10 0 0 1) 32, IPPrefix (V4 10 0 0 0) 8]"
  by (subst conjunct1 [OF cidrsEqual_sets]) auto

section \<open>What is written is read back\<close>

text \<open>The lines for one peer, when no write fails.\<close>

definition peer_kvs :: "'ip uapi_env \<Rightarrow> 'ip wg_peer \<Rightarrow> 'ip wg_peer \<Rightarrow> (string \<times> string) list" where
  "peer_kvs e oldPeer p =
     [(''public_key'', Key_HexString (wp_PublicKey p)), (''protocol_version'', ''1'')] @
     (if Endpoints_Equal (wp_Endpoints oldPeer) (wp_Endpoints p) then [] else [(''endpoint'', the (ue_json e (wp_Endpoints p)))]) @
     (if cidrsEqual (wp_AllowedIPs oldPeer) (wp_AllowedIPs p) then []
      else (''replace_allowed_ips'', ''true'') # map (\<lambda>a. (''allowed_ip'', ue_prefix_str e a)) (wp_AllowedIPs p)) @
     (if wp_PersistentKeepalive oldPeer = wp_PersistentKeepalive p then []
      else [(''persistent_keepalive_interval'', fmt_nat (unat (wp_PersistentKeepalive p)))])"

definition writable :: "'ip uapi_env \<Rightarrow> 'ip wg_config \<Rightarrow> bool" where
  "writable e cfg \<longleftrightarrow> ue_write e = (\<lambda>_. None) \<and> (\<forall>p\<in>set (wc_Peers cfg). ue_json e (wp_Endpoints p) \<noteq> None)"

lemma set_line_ok [simp]: "ue_write e = (\<lambda>_. None) \<Longrightarrow> set_line e k v (out, None) = (out @ [(k, v)], None)"
  by (simp add: set_line_def)

lemma fold_set_line [simp]:
  "ue_write e = (\<lambda>_. None) \<Longrightarrow> fold (\<lambda>x. set_line e (k x) (v x)) xs (out, None) = (out @ map (\<lambda>x. (k x, v x)) xs, None)"
  by (induction xs arbitrary: out) simp_all

lemma set_peer_lines_ok:
  assumes "ue_write e = (\<lambda>_. None)" "ue_json e (wp_Endpoints p) \<noteq> None"
  shows "set_peer_lines e old p (out, None) = Inr (out @ peer_kvs e old p, None)"
  using assms
  by (auto simp: set_peer_lines_def set_endpoint_def set_allowed_def setPeer_def setUint16_def peer_kvs_def Let_def)

lemma set_peers_ok:
  assumes "ue_write e = (\<lambda>_. None)" "\<forall>p\<in>set ps. ue_json e (wp_Endpoints p) \<noteq> None"
  shows "set_peers e old ps (out, None) =
    Inr (out @ concat (map (\<lambda>p. peer_kvs e (old_peer old (wp_PublicKey p)) p) ps), None)"
  using assms by (induction ps arbitrary: out) (simp_all add: set_peer_lines_ok)

definition key_kvs :: "wgkey \<Rightarrow> wgkey \<Rightarrow> (string \<times> string) list" where
  "key_kvs old new = (if old = new then [] else [(''private_key'', Key_HexString new)])"

definition remove_kvs :: "wgkey \<Rightarrow> (string \<times> string) list" where
  "remove_kvs k = [(''public_key'', Key_HexString k), (''remove'', ''true'')]"

definition stale_peers :: "'ip wg_config \<Rightarrow> 'ip wg_config \<Rightarrow> (wgkey \<times> 'ip wg_peer) list" where
  "stale_peers cfg prev = fold (\<lambda>p. AList.delete (wp_PublicKey p)) (wc_Peers cfg) (old_peers (wc_Peers prev))"

lemma ToUAPI_ok:
  assumes "writable e cfg"
  shows "ToUAPI e cfg prev =
    (key_kvs (wc_PrivateKey prev) (wc_PrivateKey cfg) @
     concat (map (\<lambda>p. peer_kvs e (old_peer (old_peers (wc_Peers prev)) (wp_PublicKey p)) p) (wc_Peers cfg)) @
     concat (map (\<lambda>kp. remove_kvs (wp_PublicKey (snd kp))) (stale_peers cfg prev)), None)"
proof -
  have w: "ue_write e = (\<lambda>_. None)" "\<forall>p\<in>set (wc_Peers cfg). ue_json e (wp_Endpoints p) \<noteq> None"
    using assms by (simp_all add: writable_def)
  have r: "fold (\<lambda>(k, p) st. set_line e ''remove'' ''true'' (setPeer e p st)) old (out, None) =
      (out @ concat (map (\<lambda>kp. remove_kvs (wp_PublicKey (snd kp))) old), None)" for old out
    using w(1) by (induction old arbitrary: out) (auto simp: setPeer_def remove_kvs_def)
  show ?thesis
    using w by (simp add: ToUAPI_def Let_def set_peers_ok r key_kvs_def stale_peers_def)
qed

text \<open>Lines that survive the scanner.\<close>

definition clean_kv :: "string \<times> string \<Rightarrow> bool" where
  "clean_kv kv \<longleftrightarrow> CHR ''='' \<notin> set (fst kv) \<and> CHR 0x0A \<notin> set (fst kv) \<and> CHR 0x0A \<notin> set (snd kv) \<and>
     CHR 0x0D \<notin> set (snd kv) \<and> length (fst kv) + length (snd kv) < 65535"

lemma scan_uapi_text:
  "list_all clean_kv kvs \<Longrightarrow> scan_lines (uapi_text kvs) = map (\<lambda>kv. fst kv @ CHR ''='' # snd kv) kvs"
proof -
  have "split_on (CHR 0x0A) (uapi_text kvs) = map (\<lambda>kv. fst kv @ CHR ''='' # snd kv) kvs @ [[]]" if "list_all clean_kv kvs"
    using that
  proof (induction kvs)
    case (Cons kv kvs)
    have "split_on (CHR 0x0A) ((fst kv @ CHR ''='' # snd kv) @ CHR 0x0A # uapi_text kvs) =
        (fst kv @ CHR ''='' # snd kv) # split_on (CHR 0x0A) (uapi_text kvs)"
      using Cons.prems by (intro split_on_append_sep) (auto simp: clean_kv_def)
    with Cons show ?case by (simp add: uapi_text_def line_text_def)
  qed (simp add: uapi_text_def)
  then show "list_all clean_kv kvs \<Longrightarrow> ?thesis" by (simp add: scan_lines_def Let_def)
qed

text \<open>One line, without the scanner.\<close>

definition read_kv :: "'ip uapi_env \<Rightarrow> bool \<Rightarrow> string \<times> string \<Rightarrow> 'ip wg_config \<Rightarrow> (uapi_error + 'ip wg_config) option" where
  "read_kv e deviceConfig kv cfg =
     (if fst kv = ''public_key'' then handlePublicKeyLine cfg (snd kv)
      else if deviceConfig then handleDeviceLine cfg (fst kv) (snd kv)
      else Some (handlePeerLine e cfg (fst kv) (snd kv)))"

lemma from_lines_kv:
  assumes "clean_kv kv"
  shows "from_lines e dc ((fst kv @ CHR ''='' # snd kv) # ls) cfg =
    do { r \<leftarrow> read_kv e dc kv cfg;
         case r of Inl err \<Rightarrow> Some (Inl err) | Inr cfg \<Rightarrow> from_lines e (dc \<and> fst kv \<noteq> ''public_key'') ls cfg }"
proof -
  have "dropCR (fst kv @ CHR ''='' # snd kv) = fst kv @ CHR ''='' # snd kv"
    using assms by (auto simp: dropCR_def clean_kv_def dest: last_in_set split: if_splits)
  moreover have "memROCut (fst kv @ CHR ''='' # snd kv) (CHR ''='') = (fst kv, snd kv, True)"
    using assms by (simp add: memROCut_def clean_kv_def takeWhile_append dropWhile_append)
  ultimately show ?thesis
    using assms by (simp add: MaxScanTokenSize_def clean_kv_def read_kv_def Let_def)
qed

abbreviation kv_line :: "string \<times> string \<Rightarrow> string" where
  "kv_line kv \<equiv> fst kv @ CHR ''='' # snd kv"

text \<open>A peer whose text can be read back: what the code relies on of JSON and of \<^verbatim>\<open>netaddr\<close>.\<close>

definition text_ok :: "'ip uapi_env \<Rightarrow> 'ip wg_peer \<Rightarrow> bool" where
  "text_ok e p \<longleftrightarrow> length (wp_PublicKey p) = 32 \<and>
     (\<exists>s. ue_json e (wp_Endpoints p) = Some s \<and> clean_kv (''endpoint'', s) \<and> ue_unjson e zero_endpoints s = Some (wp_Endpoints p)) \<and>
     (\<forall>a\<in>set (wp_AllowedIPs p). clean_kv (''allowed_ip'', ue_prefix_str e a) \<and> ue_parse_prefix e (ue_prefix_str e a) = Some a)"

lemma hex_chars:
  assumes "c \<in> set (hex_encode k)"
  shows "c \<in> set ''0123456789abcdef''"
proof -
  from assms obtain b where "c = hexchar (unat (drop_bit 4 b)) \<or> c = hexchar (unat ((b :: u8) AND 15))"
    by (auto simp: hex_encode_def hex_byte_def)
  with nibbles [of b] obtain n where "c = ''0123456789abcdef'' ! n" "n < 16"
    unfolding hexchar_def by blast
  then show ?thesis using nth_mem [of n "''0123456789abcdef''"] by simp
qed

lemma clean_key: "length k = 32 \<Longrightarrow> clean_kv (''private_key'', Key_HexString k) \<and> clean_kv (''public_key'', Key_HexString k)"
  using hex_chars [of "CHR 0x0A" k] hex_chars [of "CHR 0x0D" k] by (auto simp: clean_kv_def Key_HexString_def)

lemma length_fmt_nat: "length (fmt_nat n) \<le> n div 10 + 2"
proof (induction n rule: fmt_nat.induct)
  case (1 n)
  then show ?case by (subst fmt_nat.simps) (auto intro: order_trans)
qed

lemma clean_keepalive: "clean_kv (''persistent_keepalive_interval'', fmt_nat (unat (n :: u16)))"
proof -
  have "unat n < 65536" using unsigned_less [of n] by simp
  then have "length (fmt_nat (unat n)) \<le> 6555" using length_fmt_nat [of "unat n"] by simp
  moreover have "CHR 0x0A \<notin> set (fmt_nat (unat n))" "CHR 0x0D \<notin> set (fmt_nat (unat n))"
    using fmt_nat_digits [of "CHR 0x0A" "unat n"] fmt_nat_digits [of "CHR 0x0D" "unat n"]
    by (auto simp: isdigit_def less_eq_char_def)
  ultimately show ?thesis by (simp add: clean_kv_def)
qed

lemma clean_peer_kvs: "text_ok e p \<Longrightarrow> list_all clean_kv (peer_kvs e old p)"
  using clean_key clean_keepalive
  by (auto simp: text_ok_def peer_kvs_def list_all_iff) (simp_all add: clean_kv_def)

lemma parseKeyHex_HexString [simp]: "length k = 32 \<Longrightarrow> parseKeyHex (Key_HexString k) = Some (Inr k)"
  by (simp add: parseKeyHex_def Key_HexString_def Keys.Size_def)

lemma ParseUint16_fmt [simp]: "ParseUint16 (fmt_nat (unat n)) = Some n"
proof -
  have "unat n < 65536" using unsigned_less [of n] by simp
  moreover have "list_all isdigit (fmt_nat (unat n))" using fmt_nat_digits by (auto simp: list_all_iff)
  ultimately show ?thesis by (simp add: ParseUint16_def)
qed

lemma upd_last_snoc [simp]: "upd_last f (cfg\<lparr>wc_Peers := ps @ [p]\<rparr>) = cfg\<lparr>wc_Peers := ps @ [f p]\<rparr>"
  by (simp add: upd_last_def)

lemma read_allowed_ips:
  assumes "\<forall>a\<in>set as. ue_parse_prefix e (ue_prefix_str e a) = Some a" "\<forall>a\<in>set as. clean_kv (''allowed_ip'', ue_prefix_str e a)"
  shows "from_lines e False (map (\<lambda>a. kv_line (''allowed_ip'', ue_prefix_str e a)) as @ ls) (cfg\<lparr>wc_Peers := ps @ [p]\<rparr>) =
    from_lines e False ls (cfg\<lparr>wc_Peers := ps @ [p\<lparr>wp_AllowedIPs := wp_AllowedIPs p @ as\<rparr>]\<rparr>)"
  using assms
proof (induction as arbitrary: p)
  case (Cons a as)
  have "from_lines e False (kv_line (''allowed_ip'', ue_prefix_str e a) # xs) (cfg\<lparr>wc_Peers := ps @ [p]\<rparr>) =
      from_lines e False xs (cfg\<lparr>wc_Peers := ps @ [p\<lparr>wp_AllowedIPs := wp_AllowedIPs p @ [a]\<rparr>]\<rparr>)" for xs
    using Cons.prems by (subst from_lines_kv) (simp_all add: read_kv_def handlePeerLine_def)
  with Cons show ?case by (simp del: from_lines.simps)
qed simp

lemma read_peer_line:
  assumes "clean_kv (k, v)" "k \<noteq> ''public_key''" "handlePeerLine e cfg k v = Inr cfg'"
  shows "from_lines e False (kv_line (k, v) # ls) cfg = from_lines e False ls cfg'"
  using assms by (subst from_lines_kv) (simp_all add: read_kv_def)

lemma read_endpoint:
  assumes "ue_unjson e zero_endpoints s = Some ep" "clean_kv (''endpoint'', s)"
    and "wp_Endpoints p = zero_endpoints"
  shows "from_lines e False (map kv_line (if Endpoints_Equal zero_endpoints ep then [] else [(''endpoint'', s)]) @ ls) (cfg\<lparr>wc_Peers := ps @ [p]\<rparr>) =
    from_lines e False ls (cfg\<lparr>wc_Peers := ps @ [p\<lparr>wp_Endpoints := ep\<rparr>]\<rparr>)"
proof (cases "Endpoints_Equal zero_endpoints ep")
  case True
  then have "ep = zero_endpoints" by (rule Endpoints_Equal_zero)
  with True assms(3) show ?thesis by (cases p) simp
next
  case False
  have "from_lines e False (kv_line (''endpoint'', s) # ls) (cfg\<lparr>wc_Peers := ps @ [p]\<rparr>) =
      from_lines e False ls (cfg\<lparr>wc_Peers := ps @ [p\<lparr>wp_Endpoints := ep\<rparr>]\<rparr>)"
    using False assms by (intro read_peer_line) (simp_all add: handlePeerLine_def)
  with False show ?thesis by simp
qed

lemma read_allowed:
  assumes "\<forall>a\<in>set as. ue_parse_prefix e (ue_prefix_str e a) = Some a" "\<forall>a\<in>set as. clean_kv (''allowed_ip'', ue_prefix_str e a)"
    and "wp_AllowedIPs p = []"
  shows "from_lines e False (map kv_line (if cidrsEqual [] as then []
        else (''replace_allowed_ips'', ''true'') # map (\<lambda>a. (''allowed_ip'', ue_prefix_str e a)) as) @ ls) (cfg\<lparr>wc_Peers := ps @ [p]\<rparr>) =
    from_lines e False ls (cfg\<lparr>wc_Peers := ps @ [p\<lparr>wp_AllowedIPs := as\<rparr>]\<rparr>)"
proof (cases "as = []")
  case True
  with assms(3) show ?thesis by (cases p) simp
next
  case False
  have "from_lines e False (kv_line (''replace_allowed_ips'', ''true'') # ys) (cfg\<lparr>wc_Peers := ps @ [p]\<rparr>) =
      from_lines e False ys (cfg\<lparr>wc_Peers := ps @ [p]\<rparr>)" for ys
    by (intro read_peer_line) (simp_all add: handlePeerLine_def ignored_keys_def clean_kv_def)
  then show ?thesis
    using False assms(3) read_allowed_ips [OF assms(1,2)] by (simp add: comp_def del: from_lines.simps)
qed

lemma read_keepalive:
  assumes "wp_PersistentKeepalive p = 0"
  shows "from_lines e False (map kv_line (if 0 = n then [] else [(''persistent_keepalive_interval'', fmt_nat (unat n))]) @ ls)
      (cfg\<lparr>wc_Peers := ps @ [p]\<rparr>) = from_lines e False ls (cfg\<lparr>wc_Peers := ps @ [p\<lparr>wp_PersistentKeepalive := n\<rparr>]\<rparr>)"
proof (cases "n = 0")
  case True
  with assms show ?thesis by (cases p) simp
next
  case False
  have "from_lines e False (kv_line (''persistent_keepalive_interval'', fmt_nat (unat n)) # ls) (cfg\<lparr>wc_Peers := ps @ [p]\<rparr>) =
      from_lines e False ls (cfg\<lparr>wc_Peers := ps @ [p\<lparr>wp_PersistentKeepalive := n\<rparr>]\<rparr>)"
    using clean_keepalive by (intro read_peer_line) (simp_all add: handlePeerLine_def)
  with False show ?thesis by auto
qed

lemma read_peer:
  assumes ok: "text_ok e p"
  shows "from_lines e dc (map kv_line (peer_kvs e zero_peer p) @ ls) cfg = from_lines e False ls (cfg\<lparr>wc_Peers := wc_Peers cfg @ [p]\<rparr>)"
proof -
  obtain s where s: "ue_json e (wp_Endpoints p) = Some s" "ue_unjson e zero_endpoints s = Some (wp_Endpoints p)"
    and k: "length (wp_PublicKey p) = 32"
    and as: "\<forall>a\<in>set (wp_AllowedIPs p). ue_parse_prefix e (ue_prefix_str e a) = Some a"
    and cs: "clean_kv (''endpoint'', s)" "\<forall>a\<in>set (wp_AllowedIPs p). clean_kv (''allowed_ip'', ue_prefix_str e a)"
    using ok by (auto simp: text_ok_def)
  define ps where "ps = wc_Peers cfg"
  let ?c = "\<lambda>p. cfg\<lparr>wc_Peers := ps @ [p]\<rparr>" and ?p1 = "zero_peer\<lparr>wp_PublicKey := wp_PublicKey p\<rparr>"
  have key: "from_lines e dc (kv_line (''public_key'', Key_HexString (wp_PublicKey p)) # xs) cfg = from_lines e False xs (?c ?p1)" for xs
    using k clean_key by (subst from_lines_kv) (simp_all add: read_kv_def handlePublicKeyLine_def ps_def)
  have ver: "from_lines e False (kv_line (''protocol_version'', ''1'') # xs) (?c ?p1) = from_lines e False xs (?c ?p1)" for xs
    by (intro read_peer_line) (simp_all add: handlePeerLine_def clean_kv_def)
  have p: "?p1\<lparr>wp_Endpoints := wp_Endpoints p, wp_AllowedIPs := wp_AllowedIPs p, wp_PersistentKeepalive := wp_PersistentKeepalive p\<rparr> = p"
    by (cases p) (simp add: zero_peer_def)
  have kvs: "peer_kvs e zero_peer p =
      [(''public_key'', Key_HexString (wp_PublicKey p)), (''protocol_version'', ''1'')] @
      (if Endpoints_Equal zero_endpoints (wp_Endpoints p) then [] else [(''endpoint'', s)]) @
      (if cidrsEqual [] (wp_AllowedIPs p) then []
       else (''replace_allowed_ips'', ''true'') # map (\<lambda>a. (''allowed_ip'', ue_prefix_str e a)) (wp_AllowedIPs p)) @
      (if 0 = wp_PersistentKeepalive p then []
       else [(''persistent_keepalive_interval'', fmt_nat (unat (wp_PersistentKeepalive p)))])"
    unfolding peer_kvs_def by (simp add: zero_peer_def s(1))
  show ?thesis
    unfolding kvs map_append append_assoc list.map append_Cons append_Nil key ver
    by (subst read_endpoint [OF s(2) cs(1)], simp add: zero_peer_def,
        subst read_allowed [OF as cs(2)], simp add: zero_peer_def,
        subst read_keepalive, simp add: zero_peer_def, simp add: ps_def, subst p, rule refl)
qed

lemma read_peers:
  assumes "\<forall>p\<in>set ps. text_ok e p"
  shows "\<exists>dc'. from_lines e dc (map kv_line (concat (map (peer_kvs e zero_peer) ps)) @ ls) cfg =
    from_lines e dc' ls (cfg\<lparr>wc_Peers := wc_Peers cfg @ ps\<rparr>)"
  using assms
proof (induction ps arbitrary: dc cfg)
  case (Cons p ps)
  have "from_lines e dc (map kv_line (concat (map (peer_kvs e zero_peer) (p # ps))) @ ls) cfg =
      from_lines e False (map kv_line (concat (map (peer_kvs e zero_peer) ps)) @ ls) (cfg\<lparr>wc_Peers := wc_Peers cfg @ [p]\<rparr>)"
    using read_peer [of e p dc "map kv_line (concat (map (peer_kvs e zero_peer) ps)) @ ls" cfg] Cons.prems
    by (simp del: from_lines.simps)
  with Cons.IH [of False "cfg\<lparr>wc_Peers := wc_Peers cfg @ [p]\<rparr>"] Cons.prems show ?case
    by (simp del: from_lines.simps)
qed (cases cfg, auto)

lemma old_peer_Nil [simp]: "old_peer (old_peers []) q = zero_peer" by (simp add: old_peer_def old_peers_def)


section \<open>Reconfiguring a device\<close>

text \<open>
  What the documentation of the user-space API says that a device does with the lines it is given:
  the state is the private key, the endpoints and the keepalive interval of each peer, and
  for each allowed prefix the one peer that has it. The lines up to the next \<^verbatim>\<open>public_key\<close> are about the peer it names.
\<close>

record 'ip dev_view =
  dv_PrivateKey :: wgkey
  dv_Peers :: "wgkey \<rightharpoonup> 'ip endpoints \<times> u16"
  dv_Routes :: "'ip ipprefix \<rightharpoonup> wgkey"

datatype 'ip uapi_op =
    OpPrivateKey wgkey | OpPublicKey wgkey | OpEndpoint "'ip endpoints" | OpReplace | OpAllowedIP "'ip ipprefix"
  | OpKeepalive u16 | OpVersion | OpRemove

definition op_of :: "'ip uapi_env \<Rightarrow> string \<times> string \<Rightarrow> 'ip uapi_op option" where
  "op_of e kv =
     (let (k, v) = kv;
          hexkey = (\<lambda>f. case parseKeyHex v of Some (Inr key) \<Rightarrow> Some (f key) | _ \<Rightarrow> None)
      in if k = ''private_key'' then hexkey OpPrivateKey
         else if k = ''public_key'' then hexkey OpPublicKey
         else if k = ''endpoint'' then map_option OpEndpoint (ue_unjson e zero_endpoints v)
         else if k = ''replace_allowed_ips'' \<and> v = ''true'' then Some OpReplace
         else if k = ''allowed_ip'' then map_option OpAllowedIP (ue_parse_prefix e v)
         else if k = ''persistent_keepalive_interval'' then map_option OpKeepalive (ParseUint16 v)
         else if k = ''protocol_version'' \<and> v = ''1'' then Some OpVersion
         else if k = ''remove'' \<and> v = ''true'' then Some OpRemove
         else None)"

definition drop_routes :: "wgkey \<Rightarrow> ('ip ipprefix \<rightharpoonup> wgkey) \<Rightarrow> 'ip ipprefix \<rightharpoonup> wgkey" where
  "drop_routes c r = (\<lambda>a. if r a = Some c then None else r a)"

fun apply_op :: "'ip uapi_op \<Rightarrow> wgkey \<times> 'ip dev_view \<Rightarrow> wgkey \<times> 'ip dev_view" where
  "apply_op (OpPrivateKey k) (c, v) = (c, v\<lparr>dv_PrivateKey := k\<rparr>)"
| "apply_op (OpPublicKey k) (c, v) =
     (k, v\<lparr>dv_Peers := (if dv_Peers v k = None then (dv_Peers v)(k \<mapsto> (zero_endpoints, 0)) else dv_Peers v)\<rparr>)"
| "apply_op (OpEndpoint ep) (c, v) = (c, v\<lparr>dv_Peers := (dv_Peers v)(c := map_option (\<lambda>(_, n). (ep, n)) (dv_Peers v c))\<rparr>)"
| "apply_op OpReplace (c, v) = (c, v\<lparr>dv_Routes := drop_routes c (dv_Routes v)\<rparr>)"
| "apply_op (OpAllowedIP a) (c, v) = (c, v\<lparr>dv_Routes := (dv_Routes v)(a \<mapsto> c)\<rparr>)"
| "apply_op (OpKeepalive n) (c, v) = (c, v\<lparr>dv_Peers := (dv_Peers v)(c := map_option (\<lambda>(ep, _). (ep, n)) (dv_Peers v c))\<rparr>)"
| "apply_op OpVersion (c, v) = (c, v)"
| "apply_op OpRemove (c, v) = (c, v\<lparr>dv_Peers := (dv_Peers v)(c := None), dv_Routes := drop_routes c (dv_Routes v)\<rparr>)"

definition apply_ops :: "'ip uapi_op list \<Rightarrow> 'ip dev_view \<Rightarrow> 'ip dev_view" where
  "apply_ops ops v = snd (fold apply_op ops (zero_key, v))"

text \<open>The device accepts lines that are known, and does what they say.\<close>

definition device_accepts :: "'ip uapi_env \<Rightarrow> 'd wg_device \<Rightarrow> ('d \<Rightarrow> 'ip dev_view) \<Rightarrow> 'd \<Rightarrow> bool" where
  "device_accepts e w view d \<longleftrightarrow>
     (\<forall>kvs ops. list_all clean_kv kvs \<and> map (op_of e) kvs = map Some ops \<longrightarrow>
        (\<exists>d'. wd_IpcSetOperation w (uapi_text kvs) d = (d', None) \<and> view d' = apply_ops ops (view d)))"

text \<open>The device has this configuration.\<close>

definition has_peer :: "'ip dev_view \<Rightarrow> 'ip wg_peer \<Rightarrow> bool" where
  "has_peer v p \<longleftrightarrow>
     (\<exists>ep. dv_Peers v (wp_PublicKey p) = Some (ep, wp_PersistentKeepalive p) \<and> Endpoints_Equal ep (wp_Endpoints p)) \<and>
     distinct (wp_AllowedIPs p) \<and> (\<forall>a. dv_Routes v a = Some (wp_PublicKey p) \<longleftrightarrow> a \<in> set (wp_AllowedIPs p))"

definition configured :: "'ip wg_config \<Rightarrow> 'ip dev_view \<Rightarrow> bool" where
  "configured cfg v \<longleftrightarrow> dv_PrivateKey v = wc_PrivateKey cfg \<and> distinct (map wp_PublicKey (wc_Peers cfg)) \<and>
     (\<forall>p\<in>set (wc_Peers cfg). length (wp_PublicKey p) = 32 \<and> has_peer v p) \<and> dom (dv_Peers v) = wp_PublicKey ` set (wc_Peers cfg) \<and>
     ran (dv_Routes v) \<subseteq> dom (dv_Peers v)"

text \<open>The lines for a peer, as operations.\<close>

definition peer_ops :: "'ip wg_peer \<Rightarrow> 'ip wg_peer \<Rightarrow> 'ip uapi_op list" where
  "peer_ops old p =
     [OpPublicKey (wp_PublicKey p), OpVersion] @
     (if Endpoints_Equal (wp_Endpoints old) (wp_Endpoints p) then [] else [OpEndpoint (wp_Endpoints p)]) @
     (if cidrsEqual (wp_AllowedIPs old) (wp_AllowedIPs p) then [] else OpReplace # map OpAllowedIP (wp_AllowedIPs p)) @
     (if wp_PersistentKeepalive old = wp_PersistentKeepalive p then [] else [OpKeepalive (wp_PersistentKeepalive p)])"

lemma op_of_simps:
  "length k = 32 \<Longrightarrow> op_of e (''private_key'', Key_HexString k) = Some (OpPrivateKey k)"
  "length k = 32 \<Longrightarrow> op_of e (''public_key'', Key_HexString k) = Some (OpPublicKey k)"
  "ue_unjson e zero_endpoints s = Some ep \<Longrightarrow> op_of e (''endpoint'', s) = Some (OpEndpoint ep)"
  "op_of e (''replace_allowed_ips'', ''true'') = Some OpReplace"
  "ue_parse_prefix e t = Some a \<Longrightarrow> op_of e (''allowed_ip'', t) = Some (OpAllowedIP a)"
  "op_of e (''persistent_keepalive_interval'', fmt_nat (unat n)) = Some (OpKeepalive n)"
  "op_of e (''protocol_version'', ''1'') = Some OpVersion"
  "op_of e (''remove'', ''true'') = Some OpRemove"
  by (simp_all add: op_of_def)

lemma peer_kvs_ops: "text_ok e p \<Longrightarrow> map (op_of e) (peer_kvs e old p) = map Some (peer_ops old p)"
  by (auto simp: text_ok_def peer_kvs_def peer_ops_def op_of_simps)

lemma fold_allowed:
  "fold apply_op (map OpAllowedIP as) (c, v) = (c, v\<lparr>dv_Routes := (\<lambda>a. if a \<in> set as then Some c else dv_Routes v a)\<rparr>)"
proof (induction as arbitrary: v)
  case (Cons a as)
  show ?case by (simp add: Cons.IH fun_eq_iff)
qed simp

text \<open>What the difference is taken to must be what the device has.\<close>

definition matches_old :: "'ip dev_view \<Rightarrow> 'ip wg_peer \<Rightarrow> 'ip wg_peer \<Rightarrow> bool" where
  "matches_old v old p \<longleftrightarrow>
     (case dv_Peers v (wp_PublicKey p) of
        None \<Rightarrow> Endpoints_Equal zero_endpoints (wp_Endpoints old) \<and> wp_PersistentKeepalive old = 0
      | Some (ep, n) \<Rightarrow> Endpoints_Equal ep (wp_Endpoints old) \<and> wp_PersistentKeepalive old = n) \<and>
     (cidrsEqual (wp_AllowedIPs old) (wp_AllowedIPs p) \<longrightarrow>
        (\<forall>a. dv_Routes v a = Some (wp_PublicKey p) \<longleftrightarrow> a \<in> set (wp_AllowedIPs p)))"

definition take_routes :: "'ip wg_peer \<Rightarrow> ('ip ipprefix \<rightharpoonup> wgkey) \<Rightarrow> 'ip ipprefix \<rightharpoonup> wgkey" where
  "take_routes p r = (\<lambda>a. if a \<in> set (wp_AllowedIPs p) then Some (wp_PublicKey p)
     else if r a = Some (wp_PublicKey p) then None else r a)"

lemma apply_allowed:
  assumes "cidrsEqual (wp_AllowedIPs old) (wp_AllowedIPs p) \<longrightarrow>
    (\<forall>a. dv_Routes v a = Some (wp_PublicKey p) \<longleftrightarrow> a \<in> set (wp_AllowedIPs p))"
  shows "fold apply_op (if cidrsEqual (wp_AllowedIPs old) (wp_AllowedIPs p) then [] else OpReplace # map OpAllowedIP (wp_AllowedIPs p))
      (wp_PublicKey p, v) = (wp_PublicKey p, v\<lparr>dv_Routes := take_routes p (dv_Routes v)\<rparr>)"
proof (cases "cidrsEqual (wp_AllowedIPs old) (wp_AllowedIPs p)")
  case True
  with assms have "a \<in> set (wp_AllowedIPs p) \<longleftrightarrow> dv_Routes v a = Some (wp_PublicKey p)" for a by simp
  then have "take_routes p (dv_Routes v) = dv_Routes v" by (simp add: take_routes_def fun_eq_iff)
  with True show ?thesis by simp
next
  case False
  then show ?thesis by (simp add: fold_allowed take_routes_def drop_routes_def cong: if_cong)
qed

lemma apply_peer_ops:
  assumes m: "matches_old v old p"
  shows "\<exists>ep. Endpoints_Equal ep (wp_Endpoints p) \<and> fold apply_op (peer_ops old p) (c, v) =
    (wp_PublicKey p, v\<lparr>dv_Peers := (dv_Peers v)(wp_PublicKey p \<mapsto> (ep, wp_PersistentKeepalive p)),
       dv_Routes := take_routes p (dv_Routes v)\<rparr>)"
proof -
  let ?k = "wp_PublicKey p"
  define ep0 n0 where "ep0 = (case dv_Peers v ?k of None \<Rightarrow> zero_endpoints | Some (ep, n) \<Rightarrow> ep)"
    and "n0 = (case dv_Peers v ?k of None \<Rightarrow> 0 | Some (ep, n) \<Rightarrow> n)"
  have old: "Endpoints_Equal ep0 (wp_Endpoints old)" "wp_PersistentKeepalive old = n0"
    using m by (auto simp: matches_old_def ep0_def n0_def split: option.splits)
  define ep where "ep = (if Endpoints_Equal (wp_Endpoints old) (wp_Endpoints p) then ep0 else wp_Endpoints p)"
  have ep: "Endpoints_Equal ep (wp_Endpoints p)" using old by (auto simp: ep_def Endpoints_Equal_iff)
  let ?v1 = "v\<lparr>dv_Peers := (dv_Peers v)(?k \<mapsto> (ep0, n0))\<rparr>"
  have 1: "fold apply_op [OpPublicKey ?k, OpVersion] (c, v) = (?k, ?v1)"
    by (auto simp: ep0_def n0_def fun_eq_iff split: option.splits)
  have 2: "fold apply_op (if Endpoints_Equal (wp_Endpoints old) (wp_Endpoints p) then [] else [OpEndpoint (wp_Endpoints p)]) (?k, ?v1) =
      (?k, v\<lparr>dv_Peers := (dv_Peers v)(?k \<mapsto> (ep, n0))\<rparr>)"
    by (simp add: ep_def)
  have 3: "fold apply_op (if cidrsEqual (wp_AllowedIPs old) (wp_AllowedIPs p) then [] else OpReplace # map OpAllowedIP (wp_AllowedIPs p)) (?k, v') =
      (?k, v'\<lparr>dv_Routes := take_routes p (dv_Routes v')\<rparr>)" if "dv_Routes v' = dv_Routes v" for v'
    using m that by (intro apply_allowed) (simp add: matches_old_def)
  have 4: "fold apply_op (if wp_PersistentKeepalive old = wp_PersistentKeepalive p then [] else [OpKeepalive (wp_PersistentKeepalive p)])
      (?k, v\<lparr>dv_Peers := (dv_Peers v)(?k \<mapsto> (ep, n0)), dv_Routes := r\<rparr>) =
      (?k, v\<lparr>dv_Peers := (dv_Peers v)(?k \<mapsto> (ep, wp_PersistentKeepalive p)), dv_Routes := r\<rparr>)" for r
    using old(2) by simp
  show ?thesis
    unfolding peer_ops_def fold_append comp_apply 1 2 using ep 3 4 by auto
qed

definition peers_ops :: "(wgkey \<times> 'ip wg_peer) list \<Rightarrow> 'ip wg_peer list \<Rightarrow> 'ip uapi_op list" where
  "peers_ops old ps = concat (map (\<lambda>p. peer_ops (old_peer old (wp_PublicKey p)) p) ps)"

definition separate :: "'ip wg_peer list \<Rightarrow> bool" where
  "separate ps \<longleftrightarrow> distinct (map wp_PublicKey ps) \<and> (\<forall>p\<in>set ps. distinct (wp_AllowedIPs p)) \<and>
     (\<forall>p\<in>set ps. \<forall>q\<in>set ps. p \<noteq> q \<longrightarrow> set (wp_AllowedIPs p) \<inter> set (wp_AllowedIPs q) = {})"

lemma separate_Cons:
  assumes "separate (p # ps)" "q \<in> set ps"
  shows "wp_PublicKey q \<noteq> wp_PublicKey p" "set (wp_AllowedIPs p) \<inter> set (wp_AllowedIPs q) = {}"
proof -
  have "wp_PublicKey p \<notin> wp_PublicKey ` set ps" using assms(1) by (simp add: separate_def)
  with assms(2) show "wp_PublicKey q \<noteq> wp_PublicKey p" by (metis imageI)
  then have "p \<noteq> q" by auto
  then show "set (wp_AllowedIPs p) \<inter> set (wp_AllowedIPs q) = {}" using assms by (simp add: separate_def)
qed

text \<open>How the state \<open>v'\<close> after the lines for \<open>ps\<close> relates to the state \<open>v\<close> before them.\<close>

definition peers_set :: "'ip wg_peer list \<Rightarrow> 'ip dev_view \<Rightarrow> 'ip dev_view \<Rightarrow> bool" where
  "peers_set ps v v' \<longleftrightarrow> dv_PrivateKey v' = dv_PrivateKey v \<and>
    (\<forall>k. k \<notin> wp_PublicKey ` set ps \<longrightarrow> dv_Peers v' k = dv_Peers v k) \<and>
    (\<forall>p\<in>set ps. \<exists>ep. dv_Peers v' (wp_PublicKey p) = Some (ep, wp_PersistentKeepalive p) \<and> Endpoints_Equal ep (wp_Endpoints p)) \<and>
    (\<forall>p\<in>set ps. \<forall>a\<in>set (wp_AllowedIPs p). dv_Routes v' a = Some (wp_PublicKey p)) \<and>
    (\<forall>a. (\<forall>p\<in>set ps. a \<notin> set (wp_AllowedIPs p)) \<longrightarrow>
       dv_Routes v' a = (if dv_Routes v a \<in> Some ` wp_PublicKey ` set ps then None else dv_Routes v a))"

lemma peers_set_Cons:
  assumes sep: "separate (p # ps)" and ep: "Endpoints_Equal ep (wp_Endpoints p)"
    and v1: "dv_PrivateKey v1 = dv_PrivateKey v" "dv_Peers v1 = (dv_Peers v)(wp_PublicKey p \<mapsto> (ep, wp_PersistentKeepalive p))"
      "dv_Routes v1 = take_routes p (dv_Routes v)"
    and set: "peers_set ps v1 v'"
  shows "peers_set (p # ps) v v'"
proof -
  have k: "wp_PublicKey p \<notin> wp_PublicKey ` set ps" using sep by (simp add: separate_def)
  have rest: "dv_Routes v' a = (if dv_Routes v1 a \<in> Some ` wp_PublicKey ` set ps then None else dv_Routes v1 a)"
    if "\<forall>q\<in>set ps. a \<notin> set (wp_AllowedIPs q)" for a
    using set that by (simp add: peers_set_def)
  have r: "dv_Routes v' a = Some (wp_PublicKey p)" if a: "a \<in> set (wp_AllowedIPs p)" for a
  proof -
    have "\<forall>q\<in>set ps. a \<notin> set (wp_AllowedIPs q)" using a separate_Cons(2) [OF sep] by blast
    moreover have "dv_Routes v1 a = Some (wp_PublicKey p)" using a by (simp add: v1 take_routes_def)
    ultimately show ?thesis using rest [of a] k by (simp add: image_image image_iff)
  qed
  have others: "dv_Routes v' a = (if dv_Routes v a \<in> Some ` wp_PublicKey ` set (p # ps) then None else dv_Routes v a)"
    if a: "\<forall>q\<in>set (p # ps). a \<notin> set (wp_AllowedIPs q)" for a
  proof -
    have "dv_Routes v1 a = (if dv_Routes v a = Some (wp_PublicKey p) then None else dv_Routes v a)"
      using a by (simp add: v1 take_routes_def)
    with rest [of a] a show ?thesis by (cases "dv_Routes v a = Some (wp_PublicKey p)") (simp_all add: image_iff)
  qed
  have "dv_Peers v' (wp_PublicKey p) = Some (ep, wp_PersistentKeepalive p)"
    using set k by (simp add: peers_set_def v1)
  with set ep have "\<forall>q\<in>set (p # ps). \<exists>ep. dv_Peers v' (wp_PublicKey q) = Some (ep, wp_PersistentKeepalive q) \<and> Endpoints_Equal ep (wp_Endpoints q)"
    by (simp add: peers_set_def)
  moreover have "\<forall>k. k \<notin> wp_PublicKey ` set (p # ps) \<longrightarrow> dv_Peers v' k = dv_Peers v k"
    using set by (simp add: peers_set_def v1)
  ultimately show ?thesis
    using r others set unfolding peers_set_def v1(1) by simp
qed

lemma apply_peers_ops:
  assumes "separate ps" "\<forall>p\<in>set ps. matches_old v (old_peer old (wp_PublicKey p)) p"
  shows "\<exists>c' v'. fold apply_op (peers_ops old ps) (c, v) = (c', v') \<and> peers_set ps v v'"
  using assms
proof (induction ps arbitrary: c v)
  case (Cons p ps)
  note sep = separate_Cons [OF Cons.prems(1)]
  obtain ep where ep: "Endpoints_Equal ep (wp_Endpoints p)" and step: "fold apply_op (peer_ops (old_peer old (wp_PublicKey p)) p) (c, v) =
      (wp_PublicKey p, v\<lparr>dv_Peers := (dv_Peers v)(wp_PublicKey p \<mapsto> (ep, wp_PersistentKeepalive p)),
         dv_Routes := take_routes p (dv_Routes v)\<rparr>)"
    (is "_ = (_, ?v1)")
    using apply_peer_ops [of v _ p c] Cons.prems(2) by fastforce
  have sp: "separate ps" using Cons.prems(1) by (auto simp: separate_def)
  have "matches_old ?v1 (old_peer old (wp_PublicKey q)) q" if q: "q \<in> set ps" for q
  proof -
    have "take_routes p (dv_Routes v) a = Some (wp_PublicKey q) \<longleftrightarrow> a \<notin> set (wp_AllowedIPs p) \<and> dv_Routes v a = Some (wp_PublicKey q)" for a
      using sep(1) [OF q] by (auto simp: take_routes_def)
    with Cons.prems(2) q sep [OF q] show ?thesis by (auto simp: matches_old_def)
  qed
  with Cons.IH [OF sp, of ?v1 "wp_PublicKey p"] obtain c' v' where
    IH: "fold apply_op (peers_ops old ps) (wp_PublicKey p, ?v1) = (c', v')" "peers_set ps ?v1 v'" by blast
  have "fold apply_op (peers_ops old (p # ps)) (c, v) = (c', v')" using IH(1) step by (simp add: peers_ops_def)
  moreover have "peers_set (p # ps) v v'"
    by (rule peers_set_Cons [OF Cons.prems(1) ep _ _ _ IH(2)]) simp_all
  ultimately show ?case by blast
qed (simp add: peers_ops_def peers_set_def)

definition remove_ops :: "wgkey list \<Rightarrow> 'ip uapi_op list" where
  "remove_ops ks = concat (map (\<lambda>k. [OpPublicKey k, OpRemove]) ks)"

lemma apply_remove_ops:
  "\<exists>c'. fold apply_op (remove_ops ks) (c, v) = (c', v\<lparr>dv_Peers := (\<lambda>k. if k \<in> set ks then None else dv_Peers v k),
     dv_Routes := (\<lambda>a. if dv_Routes v a \<in> Some ` set ks then None else dv_Routes v a)\<rparr>)"
proof (induction ks arbitrary: c v)
  case (Cons k ks)
  let ?v = "v\<lparr>dv_Peers := (dv_Peers v)(k := None), dv_Routes := drop_routes k (dv_Routes v)\<rparr>"
  have "fold apply_op (remove_ops (k # ks)) (c, v) = fold apply_op (remove_ops ks) (k, ?v)"
    by (simp add: remove_ops_def)
  moreover have "(\<lambda>k'. if k' \<in> set ks then None else dv_Peers ?v k') = (\<lambda>k'. if k' \<in> set (k # ks) then None else dv_Peers v k')"
    by auto
  moreover have "(\<lambda>a. if dv_Routes ?v a \<in> Some ` set ks then None else dv_Routes ?v a) =
      (\<lambda>a. if dv_Routes v a \<in> Some ` set (k # ks) then None else dv_Routes v a)"
    by (auto simp: drop_routes_def fun_eq_iff)
  ultimately show ?case using Cons.IH [of k ?v] by simp
qed (simp add: remove_ops_def)

text \<open>The map \<^verbatim>\<open>old\<close>.\<close>

lemma map_of_old_peers: "map_of (old_peers ps) k = map_of (rev (map (\<lambda>p. (wp_PublicKey p, p)) ps)) k"
proof -
  have "map_of (fold (\<lambda>p. AList.update (wp_PublicKey p) p) ps m) k =
      (map_of m ++ map_of (rev (map (\<lambda>p. (wp_PublicKey p, p)) ps))) k" for m :: "(wgkey \<times> 'a wg_peer) list"
    by (induction ps arbitrary: m) (simp_all add: update_conv' map_add_def split: option.splits)
  from this [of "[]"] show ?thesis by (simp add: old_peers_def)
qed

lemma old_peer_in:
  assumes "distinct (map wp_PublicKey ps)" "p \<in> set ps"
  shows "old_peer (old_peers ps) (wp_PublicKey p) = p"
proof -
  have "map_of (rev (map (\<lambda>p. (wp_PublicKey p, p)) ps)) (wp_PublicKey p) = Some p"
    using assms by (intro map_of_is_SomeI) (auto simp: rev_map [symmetric] comp_def)
  then show ?thesis by (simp add: old_peer_def map_of_old_peers)
qed

lemma old_peer_out: "k \<notin> wp_PublicKey ` set ps \<Longrightarrow> old_peer (old_peers ps) k = zero_peer"
proof -
  assume "k \<notin> wp_PublicKey ` set ps"
  then have "map_of (rev (map (\<lambda>p. (wp_PublicKey p, p)) ps)) k = None" by (auto simp: map_of_eq_None_iff)
  then show ?thesis by (simp add: old_peer_def map_of_old_peers)
qed

lemma update_keyed:
  "\<forall>(k, q)\<in>set m. wp_PublicKey q = k \<Longrightarrow> \<forall>(k, q)\<in>set (AList.update (wp_PublicKey p) p m). wp_PublicKey q = k"
  by (induction m) auto

lemma old_peers_keys: "\<forall>(k, q)\<in>set (old_peers ps). wp_PublicKey q = k"
proof -
  have "\<forall>(k, q)\<in>set (fold (\<lambda>p. AList.update (wp_PublicKey p) p) ps m). wp_PublicKey q = k"
    if "\<forall>(k, q)\<in>set m. wp_PublicKey q = k" for m :: "(wgkey \<times> 'a wg_peer) list"
    using that
  proof (induction ps arbitrary: m)
    case (Cons p ps)
    from Cons.IH [OF update_keyed [OF Cons.prems]] show ?case by simp
  qed simp
  from this [of "[]"] show ?thesis by (simp add: old_peers_def)
qed

lemma fold_delete: "fold (\<lambda>p. AList.delete (wp_PublicKey p)) ps m = filter (\<lambda>kp. fst kp \<notin> wp_PublicKey ` set ps) m"
proof (induction ps arbitrary: m)
  case (Cons p ps)
  have "AList.delete (wp_PublicKey p) m = filter (\<lambda>kp. fst kp \<noteq> wp_PublicKey p) m"
    unfolding AList.delete_eq by (rule filter_cong) auto
  with Cons show ?case by (simp add: conj_commute)
qed simp

lemma fst_old_peers: "fst ` set (old_peers ps) = wp_PublicKey ` set ps"
proof -
  have "fst ` set (old_peers ps) = dom (map_of (old_peers ps))" by (simp add: dom_map_of_conv_image_fst)
  also have "\<dots> = dom (map_of (rev (map (\<lambda>p. (wp_PublicKey p, p)) ps)))"
    by (rule arg_cong [of _ _ dom]) (rule ext, rule map_of_old_peers)
  also have "\<dots> = wp_PublicKey ` set ps" by (auto simp: dom_map_of_conv_image_fst image_image)
  finally show ?thesis .
qed

lemma stale_keys:
  "set (map (\<lambda>kp. wp_PublicKey (snd kp)) (stale_peers cfg prev)) = wp_PublicKey ` set (wc_Peers prev) - wp_PublicKey ` set (wc_Peers cfg)"
proof -
  have "wp_PublicKey (snd kp) = fst kp" if "kp \<in> set (old_peers (wc_Peers prev))" for kp
    using old_peers_keys [of "wc_Peers prev"] that by (auto simp: split_beta)
  then have "set (map (\<lambda>kp. wp_PublicKey (snd kp)) (stale_peers cfg prev)) =
      {k \<in> fst ` set (old_peers (wc_Peers prev)). k \<notin> wp_PublicKey ` set (wc_Peers cfg)}"
    unfolding stale_peers_def fold_delete by (auto simp: image_iff)
  then show ?thesis unfolding fst_old_peers by blast
qed

lemma configured_matches_old:
  assumes "configured prev v" "separate ps" "p \<in> set ps"
  shows "matches_old v (old_peer (old_peers (wc_Peers prev)) (wp_PublicKey p)) p"
proof (cases "wp_PublicKey p \<in> wp_PublicKey ` set (wc_Peers prev)")
  case True
  then obtain q where q: "q \<in> set (wc_Peers prev)" "wp_PublicKey q = wp_PublicKey p" by auto
  have old: "old_peer (old_peers (wc_Peers prev)) (wp_PublicKey p) = q"
    using old_peer_in [OF _ q(1)] assms(1) q(2) by (simp add: configured_def)
  have h: "has_peer v q" using assms(1) q(1) by (simp add: configured_def)
  have "distinct (wp_AllowedIPs p)" using assms(2,3) by (simp add: separate_def)
  then have "cidrsEqual (wp_AllowedIPs q) (wp_AllowedIPs p) \<Longrightarrow> set (wp_AllowedIPs p) = set (wp_AllowedIPs q)"
    using card_subset_eq [of "set (wp_AllowedIPs q)" "set (wp_AllowedIPs p)"] h distinct_card [of "wp_AllowedIPs p"]
      distinct_card [of "wp_AllowedIPs q"] by (auto simp: cidrsEqual_iff has_peer_def)
  with h q(2) show ?thesis unfolding old matches_old_def has_peer_def by auto
next
  case False
  then have "dv_Peers v (wp_PublicKey p) = None" using assms(1) by (auto simp: configured_def dom_def)
  moreover from this have "dv_Routes v a \<noteq> Some (wp_PublicKey p)" for a
    using assms(1) by (auto simp: configured_def ran_def dom_def)
  ultimately show ?thesis
    using old_peer_out [OF False] by (simp add: matches_old_def zero_peer_def)
qed

text \<open>After the lines for all peers, and after the removal of the peers \<open>ks\<close> that are no longer wanted.\<close>

definition without_peers :: "wgkey set \<Rightarrow> 'ip dev_view \<Rightarrow> 'ip dev_view" where
  "without_peers K v = v\<lparr>dv_Peers := (\<lambda>k. if k \<in> K then None else dv_Peers v k),
     dv_Routes := (\<lambda>a. if dv_Routes v a \<in> Some ` K then None else dv_Routes v a)\<rparr>"

lemma reconfigured_peers:
  assumes c: "configured prev v" and s: "peers_set ps (v\<lparr>dv_PrivateKey := key\<rparr>) v1"
    and K: "K = wp_PublicKey ` set (wc_Peers prev) - wp_PublicKey ` set ps"
  shows "\<forall>p\<in>set ps. \<exists>ep. dv_Peers (without_peers K v1) (wp_PublicKey p) = Some (ep, wp_PersistentKeepalive p) \<and> Endpoints_Equal ep (wp_Endpoints p)"
    and "dom (dv_Peers (without_peers K v1)) = wp_PublicKey ` set ps"
proof -
  let ?P = "dv_Peers (without_peers K v1)"
  have eq: "?P k = (if k \<in> K then None else dv_Peers v1 k)" for k by (simp add: without_peers_def)
  have "wp_PublicKey p \<notin> K" if "p \<in> set ps" for p using K that by blast
  with s show P: "\<forall>p\<in>set ps. \<exists>ep. ?P (wp_PublicKey p) = Some (ep, wp_PersistentKeepalive p) \<and> Endpoints_Equal ep (wp_Endpoints p)"
    by (simp add: peers_set_def eq)
  have out: "?P k = None" if "k \<notin> wp_PublicKey ` set ps" for k
  proof -
    have "dv_Peers v1 k = dv_Peers v k" using s that by (simp add: peers_set_def)
    moreover have "dv_Peers v k = None" if "k \<notin> wp_PublicKey ` set (wc_Peers prev)"
      using c that by (auto simp: configured_def dom_def)
    ultimately show ?thesis using that unfolding eq unfolding K by auto
  qed
  show "dom ?P = wp_PublicKey ` set ps"
  proof (rule set_eqI)
    fix k
    show "k \<in> dom ?P \<longleftrightarrow> k \<in> wp_PublicKey ` set ps" using P out [of k]
      by (cases "k \<in> wp_PublicKey ` set ps") (auto simp: domIff)
  qed
qed

lemma reconfigured_routes:
  assumes c: "configured prev v" and sep: "separate ps" and s: "peers_set ps (v\<lparr>dv_PrivateKey := key\<rparr>) v1"
    and K: "K = wp_PublicKey ` set (wc_Peers prev) - wp_PublicKey ` set ps"
  shows "\<forall>p\<in>set ps. \<forall>a. dv_Routes (without_peers K v1) a = Some (wp_PublicKey p) \<longleftrightarrow> a \<in> set (wp_AllowedIPs p)"
    and "ran (dv_Routes (without_peers K v1)) \<subseteq> wp_PublicKey ` set ps"
proof -
  let ?R = "dv_Routes (without_peers K v1)"
  have eq: "?R a = (if dv_Routes v1 a \<in> Some ` K then None else dv_Routes v1 a)" for a by (simp add: without_peers_def)
  have in_R: "?R a = Some (wp_PublicKey p)" if "p \<in> set ps" "a \<in> set (wp_AllowedIPs p)" for a p
  proof -
    have "dv_Routes v1 a = Some (wp_PublicKey p)" using s that by (simp add: peers_set_def)
    with that show ?thesis unfolding eq unfolding K by auto
  qed
  have not_R: "?R a = None" if "\<forall>p\<in>set ps. a \<notin> set (wp_AllowedIPs p)" for a
  proof -
    have "dv_Routes v1 a = (if dv_Routes v a \<in> Some ` wp_PublicKey ` set ps then None else dv_Routes v a)"
      using s that by (simp add: peers_set_def)
    moreover have "k \<in> wp_PublicKey ` set (wc_Peers prev)" if "dv_Routes v a = Some k" for k
      using c ranI [of "dv_Routes v" a k] that by (auto simp: configured_def)
    ultimately show ?thesis unfolding eq unfolding K by (cases "dv_Routes v a") auto
  qed
  have ex: "\<exists>p\<in>set ps. a \<in> set (wp_AllowedIPs p) \<and> k = wp_PublicKey p" if "?R a = Some k" for a k
    using that not_R [of a] in_R [of _ a] by fastforce
  show "\<forall>p\<in>set ps. \<forall>a. ?R a = Some (wp_PublicKey p) \<longleftrightarrow> a \<in> set (wp_AllowedIPs p)"
  proof (intro ballI allI iffI)
    fix p a assume p: "p \<in> set ps" and "?R a = Some (wp_PublicKey p)"
    with ex [of a "wp_PublicKey p"] obtain q where q: "q \<in> set ps" "a \<in> set (wp_AllowedIPs q)" "wp_PublicKey p = wp_PublicKey q" by blast
    with sep p have "q = p" by (auto simp: separate_def distinct_map dest: inj_onD)
    with q(2) show "a \<in> set (wp_AllowedIPs p)" by simp
  qed (rule in_R)
  show "ran ?R \<subseteq> wp_PublicKey ` set ps" using ex by (fastforce simp: ran_def)
qed

lemma configured_sort: "configured (cfg\<lparr>wc_Peers := sort_key f (wc_Peers cfg)\<rparr>) v \<longleftrightarrow> configured cfg v"
proof -
  have "distinct (map wp_PublicKey (sort_key f ps)) \<longleftrightarrow> distinct (map wp_PublicKey ps)" for ps
    by (metis mset_eq_imp_distinct_iff mset_map mset_sort)
  then show ?thesis by (simp add: configured_def)
qed

definition all_kvs :: "'ip uapi_env \<Rightarrow> 'ip wg_config \<Rightarrow> 'ip wg_config \<Rightarrow> (string \<times> string) list" where
  "all_kvs e cfg prev = key_kvs (wc_PrivateKey prev) (wc_PrivateKey cfg) @
     concat (map (\<lambda>p. peer_kvs e (old_peer (old_peers (wc_Peers prev)) (wp_PublicKey p)) p) (wc_Peers cfg)) @
     concat (map (\<lambda>kp. remove_kvs (wp_PublicKey (snd kp))) (stale_peers cfg prev))"

definition all_ops :: "'ip wg_config \<Rightarrow> 'ip wg_config \<Rightarrow> 'ip uapi_op list" where
  "all_ops cfg prev = (if wc_PrivateKey prev = wc_PrivateKey cfg then [] else [OpPrivateKey (wc_PrivateKey cfg)]) @
     peers_ops (old_peers (wc_Peers prev)) (wc_Peers cfg) @
     remove_ops (map (\<lambda>kp. wp_PublicKey (snd kp)) (stale_peers cfg prev))"

lemma all_kvs_ops:
  assumes "length (wc_PrivateKey cfg) = 32" "\<forall>p\<in>set (wc_Peers cfg). text_ok e p" "\<forall>p\<in>set (wc_Peers prev). length (wp_PublicKey p) = 32"
  shows "list_all clean_kv (all_kvs e cfg prev)" "map (op_of e) (all_kvs e cfg prev) = map Some (all_ops cfg prev)"
proof -
  have stale: "length (wp_PublicKey (snd kp)) = 32" if "kp \<in> set (stale_peers cfg prev)" for kp
  proof -
    have "wp_PublicKey (snd kp) \<in> set (map (\<lambda>kp. wp_PublicKey (snd kp)) (stale_peers cfg prev))" using that by simp
    with assms(3) show ?thesis unfolding stale_keys by auto
  qed
  have "clean_kv (''remove'', ''true'')" by (simp add: clean_kv_def)
  with stale clean_key clean_peer_kvs [of e] assms show "list_all clean_kv (all_kvs e cfg prev)"
    by (auto simp: all_kvs_def key_kvs_def remove_kvs_def list_all_iff)
  have rm: "map (op_of e) (concat (map (\<lambda>kp. remove_kvs (wp_PublicKey (snd kp))) kps)) =
      map Some (remove_ops (map (\<lambda>kp. wp_PublicKey (snd kp)) kps))" if "\<forall>kp\<in>set kps. length (wp_PublicKey (snd kp)) = 32" for kps
    using that by (induction kps) (simp_all add: remove_kvs_def remove_ops_def op_of_simps)
  have pe: "map (op_of e) (concat (map (\<lambda>p. peer_kvs e (old_peer old (wp_PublicKey p)) p) ps)) = map Some (peers_ops old ps)"
    if "\<forall>p\<in>set ps. text_ok e p" for old ps
    using that by (induction ps) (simp_all add: peers_ops_def peer_kvs_ops)
  show "map (op_of e) (all_kvs e cfg prev) = map Some (all_ops cfg prev)"
    using assms stale rm [of "stale_peers cfg prev"] pe [of "wc_Peers cfg"]
    by (simp add: all_kvs_def all_ops_def key_kvs_def op_of_simps)
qed

lemma apply_all_ops:
  assumes "configured prev v" "separate (wc_Peers cfg)" "\<forall>p\<in>set (wc_Peers cfg). length (wp_PublicKey p) = 32"
  shows "configured cfg (apply_ops (all_ops cfg prev) v)"
proof -
  let ?v0 = "v\<lparr>dv_PrivateKey := wc_PrivateKey cfg\<rparr>" and ?ks = "map (\<lambda>kp. wp_PublicKey (snd kp)) (stale_peers cfg prev)"
  have key: "fold apply_op (if wc_PrivateKey prev = wc_PrivateKey cfg then [] else [OpPrivateKey (wc_PrivateKey cfg)]) (zero_key, v) = (zero_key, ?v0)"
    using assms(1) by (simp add: configured_def)
  have "\<forall>p\<in>set (wc_Peers cfg). matches_old ?v0 (old_peer (old_peers (wc_Peers prev)) (wp_PublicKey p)) p"
    using configured_matches_old [OF assms(1,2)] by (simp add: matches_old_def)
  from apply_peers_ops [OF assms(2) this, of zero_key] obtain c1 v1 where
    v1: "fold apply_op (peers_ops (old_peers (wc_Peers prev)) (wc_Peers cfg)) (zero_key, ?v0) = (c1, v1)" "peers_set (wc_Peers cfg) ?v0 v1"
    by blast
  obtain c2 where "fold apply_op (remove_ops ?ks) (c1, v1) = (c2, without_peers (set ?ks) v1)"
    using apply_remove_ops [of ?ks c1 v1] unfolding without_peers_def by blast
  with key v1(1) have eq: "apply_ops (all_ops cfg prev) v = without_peers (set ?ks) v1"
    by (simp add: apply_ops_def all_ops_def del: set_map)
  have pk: "dv_PrivateKey (without_peers (set ?ks) v1) = wc_PrivateKey cfg" using v1(2) by (simp add: without_peers_def peers_set_def)
  show ?thesis
    using reconfigured_peers [OF assms(1) v1(2) stale_keys] reconfigured_routes [OF assms(1,2) v1(2) stale_keys] assms(2,3) pk
    unfolding eq configured_def has_peer_def separate_def by simp
qed

lemma ReconfigDevice_reaches:
  assumes "wd_IpcGetOperation w d = (text, None)" and "FromUAPI e text = Some (Inr prev)" and "configured prev (view d)"
    and "device_accepts e w view d" and "ue_write e = (\<lambda>_. None)" and "length (wc_PrivateKey cfg) = 32"
    and "\<forall>p\<in>set (wc_Peers cfg). text_ok e p" and "separate (wc_Peers cfg)"
  shows "\<exists>d'. ReconfigDevice e w cfg d = Some (d', None) \<and> configured cfg (view d')"
proof -
  define prev' where "prev' = prev\<lparr>wc_Peers := sort_key wp_PublicKey (wc_Peers prev)\<rparr>"
  have dc: "DeviceConfig e w d = Some (Inr prev')" using assms(1,2) by (simp add: DeviceConfig_def prev'_def)
  have c: "configured prev' (view d)" using assms(3) by (simp add: prev'_def configured_sort)
  have out: "ToUAPI e cfg prev' = (all_kvs e cfg prev', None)"
    unfolding all_kvs_def using assms(5,7) by (intro ToUAPI_ok) (auto simp: writable_def text_ok_def)
  have "\<forall>p\<in>set (wc_Peers prev'). length (wp_PublicKey p) = 32" using c by (simp add: configured_def)
  note kvs = all_kvs_ops [OF assms(6,7) this]
  from assms(4) kvs obtain d' where d': "wd_IpcSetOperation w (uapi_text (all_kvs e cfg prev')) d = (d', None)"
    "view d' = apply_ops (all_ops cfg prev') (view d)"
    unfolding device_accepts_def by blast
  have "configured cfg (view d')"
    unfolding d'(2) using assms(7,8) c by (intro apply_all_ops) (simp_all add: text_ok_def)
  with dc out d'(1) show ?thesis by (simp add: ReconfigDevice_def)
qed


text \<open>
  A configuration with one peer, an environment in which its texts can be read back, and a device
  that keeps what the lines say, for the witnesses.
\<close>

definition sample_peer :: "addr wg_peer" where
  "sample_peer = \<lparr>wp_PublicKey = replicate 32 7, wp_AllowedIPs = [IPPrefix (V4 100 64 0 2) 32],
     wp_Endpoints = \<lparr>ep_PublicKey = replicate 32 7, ep_DiscoKey = replicate 32 9, ep_IPPorts = []\<rparr>, wp_PersistentKeepalive = 25\<rparr>"

definition sample_cfg :: "addr wg_config" where
  "sample_cfg = zero_config\<lparr>wc_PrivateKey := replicate 32 1, wc_Peers := [sample_peer]\<rparr>"

definition sample_uapi :: "addr uapi_env" where
  "sample_uapi = \<lparr>ue_json = (\<lambda>_. Some ''x''), ue_unjson = (\<lambda>_ _. Some (wp_Endpoints sample_peer)), ue_prefix_str = (\<lambda>_. ''p''),
     ue_parse_prefix = (\<lambda>_. Some (IPPrefix (V4 100 64 0 2) 32)), ue_write = (\<lambda>_. None)\<rparr>"

definition line_kv :: "string \<Rightarrow> string \<times> string" where
  "line_kv l = (let (k, v, ok) = memROCut l (CHR ''='') in (k, v))"

definition sample_device :: "addr dev_view wg_device" where
  "sample_device = \<lparr>wd_IpcGetOperation = (\<lambda>_. ([], None)),
     wd_IpcSetOperation = (\<lambda>s v. (apply_ops (map (\<lambda>l. the (op_of sample_uapi (line_kv l))) (scan_lines s)) v, None))\<rparr>"

lemma sample_text_ok: "\<forall>p\<in>set (wc_Peers sample_cfg). text_ok sample_uapi p" "length (wc_PrivateKey sample_cfg) = 32"
    "separate (wc_Peers sample_cfg)" "ue_write sample_uapi = (\<lambda>_. None)"
  by (simp_all add: sample_cfg_def sample_peer_def sample_uapi_def text_ok_def clean_kv_def separate_def)

lemma sample_device_accepts: "device_accepts sample_uapi sample_device id v"
proof -
  have "line_kv (kv_line kv) = kv" if "clean_kv kv" for kv
    using that by (simp add: line_kv_def memROCut_def clean_kv_def takeWhile_append dropWhile_append)
  note line = this
  have "map (\<lambda>l. the (op_of sample_uapi (line_kv l))) (scan_lines (uapi_text kvs)) = ops"
    if "list_all clean_kv kvs" "map (op_of sample_uapi) kvs = map Some ops" for kvs ops
  proof -
    have "map (\<lambda>l. the (op_of sample_uapi (line_kv l))) (scan_lines (uapi_text kvs)) = map (\<lambda>kv. the (op_of sample_uapi kv)) kvs"
      unfolding scan_uapi_text [OF that(1)] map_map using that(1) line by (intro map_cong) (auto simp: list_all_iff)
    also have "\<dots> = map the (map (op_of sample_uapi) kvs)" by simp
    also have "\<dots> = ops" unfolding that(2) by (simp add: comp_def)
    finally show ?thesis .
  qed
  then show ?thesis by (auto simp: device_accepts_def sample_device_def)
qed



end
