(* ===== verification/Nmcfg.thy ===== *)
theory Nmcfg
  imports Wgcfg
begin

text \<open>
  The WireGuard configuration that a network map defines, \<^verbatim>\<open>wgengine/wgcfg/nmcfg/nmcfg.go\<close>. The setting
  \<^verbatim>\<open>controlclient.Debug.OnlyDisco\<close> and \<^verbatim>\<open>netaddr.ParseIPPort\<close> are arguments; the lists of skipped routes, which are only
  logged, are left out.
\<close>

definition AllowSingleHosts :: "64 word" where "AllowSingleHosts = 1"
definition AllowSubnetRoutes :: "64 word" where "AllowSubnetRoutes = 2"

definition cidrIsSubnet :: "'ip netaddr \<Rightarrow> 'ip node \<Rightarrow> 'ip ipprefix \<Rightarrow> bool" where
  "cidrIsSubnet na node cidr =
     (if pfx_Bits cidr = 0 then False
      else if \<not> na_IsSingleIP na cidr then True
      else if cidr \<in> set (elems (n_Addresses node)) then False
      else True)"

definition appendEndpoint :: "(string \<Rightarrow> 'ip ipport option) \<Rightarrow> 'ip ipport list \<Rightarrow> string \<Rightarrow> 'ip ipport list option" where
  "appendEndpoint parse ipps epStr =
     (if epStr = [] then Some ipps
      else case parse epStr of None \<Rightarrow> None | Some ipp \<Rightarrow> Some (ipps @ [ipp]))"

fun append_endpoints :: "(string \<Rightarrow> 'ip ipport option) \<Rightarrow> 'ip ipport list \<Rightarrow> string list \<Rightarrow> 'ip ipport list option" where
  "append_endpoints parse ipps [] = Some ipps"
| "append_endpoints parse ipps (ep # eps) =
     (case appendEndpoint parse ipps ep of None \<Rightarrow> None | Some ipps \<Rightarrow> append_endpoints parse ipps eps)"

fun allowed_loop :: "'ip netaddr \<Rightarrow> 64 word \<Rightarrow> string \<Rightarrow> 'ip node \<Rightarrow> 'ip ipprefix list \<Rightarrow> 'ip ipprefix list \<Rightarrow> 'ip ipprefix list" where
  "allowed_loop na flags exitNode peer acc [] = acc"
| "allowed_loop na flags exitNode peer acc (allowedIP # rest) =
     (if pfx_Bits allowedIP = 0 \<and> n_StableID peer \<noteq> exitNode then allowed_loop na flags exitNode peer acc rest
      else if na_IsSingleIP na allowedIP \<and> IsTailscaleIP na (pfx_IP allowedIP) \<and> flags AND AllowSingleHosts = 0
      then allowed_loop na flags exitNode peer acc rest
      else if cidrIsSubnet na peer allowedIP \<and> flags AND AllowSubnetRoutes = 0
      then allowed_loop na flags exitNode peer acc rest
      else allowed_loop na flags exitNode peer (acc @ [allowedIP]) rest)"

definition wg_peer_of ::
  "'ip netaddr \<Rightarrow> (string \<Rightarrow> 'ip ipport option) \<Rightarrow> 64 word \<Rightarrow> string \<Rightarrow> 'ip node \<Rightarrow> 'ip wg_peer option" where
  "wg_peer_of na parse flags exitNode peer =
     do { ipps \<leftarrow> (if DiscoKey_IsZero (n_DiscoKey peer)
                  then append_endpoints parse [] (n_DERP peer # elems (n_Endpoints peer)) else Some []);
          Some \<lparr>wp_PublicKey = n_Key peer,
                wp_AllowedIPs = allowed_loop na flags exitNode peer [] (elems (n_AllowedIPs peer)),
                wp_Endpoints = \<lparr>ep_PublicKey = n_Key peer, ep_DiscoKey = n_DiscoKey peer, ep_IPPorts = ipps\<rparr>,
                wp_PersistentKeepalive = (if n_KeepAlive peer then 25 else 0)\<rparr> }"

fun wg_peers_loop ::
  "'ip netaddr \<Rightarrow> (string \<Rightarrow> 'ip ipport option) \<Rightarrow> bool \<Rightarrow> 64 word \<Rightarrow> string \<Rightarrow> 'ip wg_peer list \<Rightarrow> 'ip node list \<Rightarrow> 'ip wg_peer list option" where
  "wg_peers_loop na parse onlyDisco flags exitNode acc [] = Some acc"
| "wg_peers_loop na parse onlyDisco flags exitNode acc (peer # peers) =
     (if onlyDisco \<and> DiscoKey_IsZero (n_DiscoKey peer) then wg_peers_loop na parse onlyDisco flags exitNode acc peers
      else case wg_peer_of na parse flags exitNode peer of
             None \<Rightarrow> None
           | Some p \<Rightarrow> wg_peers_loop na parse onlyDisco flags exitNode (acc @ [p]) peers)"

definition WGCfg ::
  "'ip netaddr \<Rightarrow> (string \<Rightarrow> 'ip ipport option) \<Rightarrow> bool \<Rightarrow> 'ip network_map \<Rightarrow> 64 word \<Rightarrow> string \<Rightarrow> 'ip wg_config option" where
  "WGCfg na parse onlyDisco nm flags exitNode =
     do { peers \<leftarrow> wg_peers_loop na parse onlyDisco flags exitNode [] (nm_Peers nm);
          Some \<lparr>wc_Name = ''tailscale'', wc_PrivateKey = nm_PrivateKey nm, wc_Addresses = elems (nm_Addresses nm),
                wc_MTU = 0, wc_DNS = [], wc_Peers = peers\<rparr> }"

text \<open>The routes that are installed.\<close>

definition route_ok :: "'ip netaddr \<Rightarrow> 64 word \<Rightarrow> string \<Rightarrow> 'ip node \<Rightarrow> 'ip ipprefix \<Rightarrow> bool" where
  "route_ok na flags exitNode peer a \<longleftrightarrow>
     (pfx_Bits a = 0 \<longrightarrow> n_StableID peer = exitNode) \<and>
     (na_IsSingleIP na a \<and> IsTailscaleIP na (pfx_IP a) \<longrightarrow> flags AND AllowSingleHosts \<noteq> 0) \<and>
     (cidrIsSubnet na peer a \<longrightarrow> flags AND AllowSubnetRoutes \<noteq> 0)"

lemma allowed_loop_filter: "allowed_loop na flags exitNode peer acc as = acc @ filter (route_ok na flags exitNode peer) as"
  by (induction na flags exitNode peer acc as rule: allowed_loop.induct) (auto simp: route_ok_def)

lemma append_endpoints_some:
  "append_endpoints parse ipps eps = Some r \<Longrightarrow> r = ipps @ map (\<lambda>e. the (parse e)) (filter (\<lambda>e. e \<noteq> []) eps)"
  by (induction parse ipps eps rule: append_endpoints.induct) (auto simp: appendEndpoint_def split: if_splits option.splits)

lemma wg_peers_loop_map:
  "wg_peers_loop na parse od flags exitNode acc peers = Some r \<Longrightarrow>
   map Some r = map Some acc @ map (wg_peer_of na parse flags exitNode) (filter (\<lambda>p. \<not> (od \<and> DiscoKey_IsZero (n_DiscoKey p))) peers)"
  by (induction na parse od flags exitNode acc peers rule: wg_peers_loop.induct) (auto split: if_splits option.splits)

lemma WGCfg_all2:
  assumes "WGCfg na parse od nm flags exitNode = Some cfg"
  shows "list_all2 (\<lambda>n p. wp_PublicKey p = n_Key n \<and> wp_PersistentKeepalive p = (if n_KeepAlive n then 25 else 0) \<and>
      ep_DiscoKey (wp_Endpoints p) = n_DiscoKey n \<and> (\<not> DiscoKey_IsZero (n_DiscoKey n) \<longrightarrow> ep_IPPorts (wp_Endpoints p) = []) \<and>
      wp_AllowedIPs p = filter (route_ok na flags exitNode n) (elems (n_AllowedIPs n)))
    (filter (\<lambda>n. od \<longrightarrow> \<not> DiscoKey_IsZero (n_DiscoKey n)) (nm_Peers nm)) (wc_Peers cfg)"
proof -
  let ?ns = "filter (\<lambda>p. \<not> (od \<and> DiscoKey_IsZero (n_DiscoKey p))) (nm_Peers nm)"
  have "map Some (wc_Peers cfg) = map (wg_peer_of na parse flags exitNode) ?ns"
    using assms wg_peers_loop_map by (fastforce simp: WGCfg_def split: Option.bind_splits)
  then have "list_all2 (\<lambda>n p. wg_peer_of na parse flags exitNode n = Some p) ?ns (wc_Peers cfg)"
    by (subst list_all2_conv_all_nth) (metis length_map nth_map)
  moreover have "?ns = filter (\<lambda>n. od \<longrightarrow> \<not> DiscoKey_IsZero (n_DiscoKey n)) (nm_Peers nm)" by (rule filter_cong) auto
  ultimately show ?thesis
    by (auto elim!: list_all2_mono simp: wg_peer_of_def allowed_loop_filter split: Option.bind_splits if_splits)
qed

lemma WGCfg_route_ok:
  assumes "WGCfg na parse od nm flags exitNode = Some cfg" and "p \<in> set (wc_Peers cfg)" and "a \<in> set (wp_AllowedIPs p)"
  shows "\<exists>n\<in>set (nm_Peers nm). n_Key n = wp_PublicKey p \<and> a \<in> set (elems (n_AllowedIPs n)) \<and> route_ok na flags exitNode n a"
proof -
  obtain i where i: "i < length (wc_Peers cfg)" "p = wc_Peers cfg ! i" using assms(2) by (auto simp: in_set_conv_nth)
  let ?ns = "filter (\<lambda>n. od \<longrightarrow> \<not> DiscoKey_IsZero (n_DiscoKey n)) (nm_Peers nm)"
  note all = WGCfg_all2 [OF assms(1)]
  from list_all2_nthD2 [OF all i(1)] i(2) assms(3) have "n_Key (?ns ! i) = wp_PublicKey p"
    "a \<in> set (elems (n_AllowedIPs (?ns ! i)))" "route_ok na flags exitNode (?ns ! i) a" by auto
  moreover have "?ns ! i \<in> set ?ns" using i(1) list_all2_lengthD [OF all] by (intro nth_mem) simp
  then have "?ns ! i \<in> set (nm_Peers nm)" by simp
  ultimately show ?thesis by blast
qed

text \<open>
  C22. The configuration made from a network map has the peers of the map in their order (with \<^verbatim>\<open>OnlyDisco\<close>, those that
  support discovery), and a peer's allowed prefixes are those of its node, in order, that the
  settings permit: a default route only for the selected exit node, a single Tailscale address only with
  \<^verbatim>\<open>AllowSingleHosts\<close>, and a subnet only with \<^verbatim>\<open>AllowSubnetRoutes\<close>.
\<close>

theorem WGCfg_peers:
  assumes "WGCfg na parse od nm flags exitNode = Some cfg"
  shows "list_all2 (\<lambda>n p. wp_PublicKey p = n_Key n \<and> wp_PersistentKeepalive p = (if n_KeepAlive n then 25 else 0) \<and>
      ep_DiscoKey (wp_Endpoints p) = n_DiscoKey n \<and> (\<not> DiscoKey_IsZero (n_DiscoKey n) \<longrightarrow> ep_IPPorts (wp_Endpoints p) = []) \<and>
      wp_AllowedIPs p = filter (route_ok na flags exitNode n) (elems (n_AllowedIPs n)))
    (filter (\<lambda>n. od \<longrightarrow> \<not> DiscoKey_IsZero (n_DiscoKey n)) (nm_Peers nm)) (wc_Peers cfg)"
  using assms by (rule WGCfg_all2)

definition sample_node :: "addr node" where
  "sample_node = zero_node\<lparr>n_Key := replicate 32 7, n_DiscoKey := replicate 32 9, n_StableID := ''n1'', n_KeepAlive := True,
     n_Addresses := Some [IPPrefix (V4 100 64 0 2) 32],
     n_AllowedIPs := Some [IPPrefix (V4 100 64 0 2) 32, IPPrefix (V4 10 0 0 0) 8, IPPrefix (V4 0 0 0 0) 0]\<rparr>"

definition sample_nm :: "addr network_map" where
  "sample_nm = zero_network_map\<lparr>nm_PrivateKey := replicate 32 1, nm_Peers := [sample_node]\<rparr>"

lemma sample_WGCfg:
  "\<exists>cfg. WGCfg addr_netaddr (\<lambda>_. None) False sample_nm AllowSingleHosts ''exit'' = Some cfg \<and> length (wc_Peers cfg) = 1 \<and>
    map wp_AllowedIPs (wc_Peers cfg) = [[IPPrefix (V4 100 64 0 2) 32]]"
proof -
  have "case WGCfg addr_netaddr (\<lambda>_. None) False sample_nm AllowSingleHosts ''exit'' of
      Some cfg \<Rightarrow> map wp_AllowedIPs (wc_Peers cfg) = [[IPPrefix (V4 100 64 0 2) 32]] | None \<Rightarrow> False" by code_simp
  then show ?thesis by (auto split: option.splits)
qed

theorem WGCfg_peers_witness:
  "\<exists>cfg. WGCfg addr_netaddr (\<lambda>_. None) False sample_nm AllowSingleHosts ''exit'' = Some cfg \<and>
    list_all2 (\<lambda>n p. wp_PublicKey p = n_Key n \<and>
      wp_AllowedIPs p = filter (route_ok addr_netaddr AllowSingleHosts ''exit'' n) (elems (n_AllowedIPs n))) [sample_node] (wc_Peers cfg)"
proof -
  obtain cfg where cfg: "WGCfg addr_netaddr (\<lambda>_. None) False sample_nm AllowSingleHosts ''exit'' = Some cfg"
    using sample_WGCfg by blast
  have "nm_Peers sample_nm = [sample_node]" by (simp add: sample_nm_def)
  with WGCfg_peers [OF cfg] cfg show ?thesis by (auto elim!: list_all2_mono)
qed

end
