(* ===== verification/Engine.thy ===== *)
theory Engine
  imports Tstun Nmcfg
begin

text \<open>
  The userspace engine, \<^verbatim>\<open>wgengine/userspace.go\<close>: the WireGuard configuration in which idle peers are left out, and the
  tracking of activity that brings them back, and the reconfiguration.

  The engine's state extends that of the TUN wrapper, so that the hooks of the wrapper act on it. Pointers to
  times are numbers, the addresses of a store; a function of \<^verbatim>\<open>destIPActivityFuncs\<close> is the pointer that its closure
  holds. The hash of \<^verbatim>\<open>util/deephash\<close>, whose sums are the values of the type \<open>'h\<close>, the WireGuard device, the router, the DNS manager and the
  connection of magicsock are the record \<open>eng_env\<close>, an argument of the definitions.
\<close>

section \<open>State\<close>

definition lazyPeerIdleThreshold :: int where "lazyPeerIdleThreshold = 5 * 60 * 1000000000"
definition packetSendTimeUpdateFrequency :: int where "packetSendTimeUpdateFrequency = 10 * 1000000000"
definition packetSendRecheckWireguardThreshold :: int where "packetSendRecheckWireguardThreshold = 60 * 1000000000"
definition statusPollInterval :: int where "statusPollInterval = 60 * 1000000000"

record 'ip router_config =
  rc_LocalAddrs :: "'ip ipprefix list"
  rc_Routes :: "'ip ipprefix list"
  rc_LocalRoutes :: "'ip ipprefix list"
  rc_SubnetRoutes :: "'ip ipprefix list"
  rc_SNATSubnetRoutes :: bool
  rc_NetfilterMode :: int

record 'ip dns_cfg =
  dg_DefaultResolvers :: "'ip ipport list"
  dg_Routes :: "(string \<times> 'ip ipport list) list"
  dg_SearchDomains :: "string list"
  dg_Hosts :: "(string \<times> 'ip list) list"

record ('ip, 'd, 'h) eng_env =
  ee_hashTrim :: "'ip wg_config \<Rightarrow> (wgkey \<Rightarrow> bool) \<Rightarrow> wgkey list \<Rightarrow> 'ip list \<Rightarrow> 'h"
  ee_hashFull :: "'ip wg_config \<Rightarrow> 'h"
  ee_hashRouter :: "'ip router_config \<Rightarrow> 'ip dns_cfg \<Rightarrow> 'h"
  ee_uapi :: "'ip uapi_env"
  ee_device :: "'d wg_device"
  ee_debugTrimWireguardEnv :: string
  ee_debugTrimWireguard :: bool
  ee_TrimWGConfig :: opt_bool
  ee_routerSet :: "'ip router_config \<Rightarrow> string option"
  ee_dnsSet :: "'ip dns_cfg \<Rightarrow> string option"
  ee_OS :: string
  ee_goos :: string

datatype 'ip magic_call = SetPrivateKey wgkey | UpdatePeers "wgkey list" | SetPreferredPort u16

datatype 'ip eng_error = ErrNoChanges | ErrWG uapi_error | ErrRouter string | ErrDNS string

record ('ip, 'd, 'h) engine = "'ip tun" +
  e_netMap :: "'ip network_map option"
  e_lastCfgFull :: "'ip wg_config"
  e_lastRouterSig :: 'h
  e_lastEngineSigFull :: 'h
  e_lastEngineSigTrim :: 'h
  e_recvActivityAt :: "wgkey \<rightharpoonup> int"
  e_trimmedDisco :: "wgkey \<Rightarrow> bool"
  e_times :: "nat \<Rightarrow> int"
  e_nextTime :: nat
  e_sentActivityAt :: "'ip \<rightharpoonup> nat"
  e_destIPActivityFuncs :: "'ip \<rightharpoonup> nat"
  e_lastStatusPollTime :: int
  e_statusRequests :: nat
  e_peerSequence :: "wgkey list"
  e_confListenPort :: u16
  e_localPort :: u16
  e_localAddrs :: "'ip ipprefix list"
  e_dnsOverTailscale :: "'ip ipprefix list"
  e_magic :: "'ip magic_call list"
  e_wgdev :: 'd
  e_routerCfg :: "'ip router_config option"
  e_dnsCfg :: "'ip dns_cfg option"
  e_lastDNSConfig :: "'ip dns_cfg option"
  e_routerHealth :: "string option"
  e_dnsHealth :: "string option"

section \<open>Idle peers\<close>

definition forceFullWireguardConfig :: "('ip, 'd, 'h) eng_env \<Rightarrow> nat \<Rightarrow> bool" where
  "forceFullWireguardConfig env numPeers =
     (if ee_debugTrimWireguardEnv env \<noteq> [] then \<not> ee_debugTrimWireguard env
      else if ee_TrimWGConfig env \<noteq> [] then \<not> EqualBool (ee_TrimWGConfig env) True
      else if numPeers > 50 \<and> ee_OS env = ''iOS'' then False
      else False)"

definition isTrimmablePeer :: "'ip netaddr \<Rightarrow> ('ip, 'd, 'h) eng_env \<Rightarrow> 'ip wg_peer \<Rightarrow> nat \<Rightarrow> bool" where
  "isTrimmablePeer na env p numPeers =
     (if forceFullWireguardConfig env numPeers then False
      else if DiscoKey_IsZero (ep_DiscoKey (wp_Endpoints p)) then False
      else list_all (na_IsSingleIP na) (wp_AllowedIPs p))"

definition isActiveSince :: "('ip, 'd, 'h, 'z) engine_scheme \<Rightarrow> wgkey \<Rightarrow> 'ip \<Rightarrow> int \<Rightarrow> bool" where
  "isActiveSince e dk ip t =
     (if (case e_recvActivityAt e dk of None \<Rightarrow> 0 | Some r \<Rightarrow> r) > t then True
      else case e_sentActivityAt e ip of None \<Rightarrow> False | Some timePtr \<Rightarrow> e_times e timePtr > t)"

text \<open>The variables of the loop over the peers: \<^verbatim>\<open>min.Peers\<close>, \<^verbatim>\<open>trackDisco\<close>, \<^verbatim>\<open>trackIPs\<close>, \<^verbatim>\<open>trimmedDisco\<close> and \<^verbatim>\<open>needRemoveStep\<close>.\<close>

record 'ip trim_state =
  ts_min :: "'ip wg_peer list"
  ts_trackDisco :: "wgkey list"
  ts_trackIPs :: "'ip list"
  ts_trimmed :: "wgkey \<Rightarrow> bool"
  ts_needRemove :: bool

definition trim_peer ::
  "'ip netaddr \<Rightarrow> ('ip, 'd, 'h) eng_env \<Rightarrow> (wgkey \<Rightarrow> bool) \<Rightarrow> ('ip, 'd, 'h, 'z) engine_scheme \<Rightarrow> int \<Rightarrow> nat \<Rightarrow> 'ip wg_peer \<Rightarrow> 'ip trim_state \<Rightarrow> 'ip trim_state" where
  "trim_peer na env discoChanged e activeCutoff numPeers p st =
     (if \<not> isTrimmablePeer na env p numPeers
      then st\<lparr>ts_min := ts_min st @ [p], ts_needRemove := ts_needRemove st \<or> discoChanged (wp_PublicKey p)\<rparr>
      else let dk = ep_DiscoKey (wp_Endpoints p);
               ips = map pfx_IP (wp_AllowedIPs p);
               recentlyActive = list_ex (\<lambda>ip. isActiveSince e dk ip activeCutoff) ips;
               st = st\<lparr>ts_trackDisco := ts_trackDisco st @ [dk], ts_trackIPs := ts_trackIPs st @ ips\<rparr>
           in if recentlyActive
              then st\<lparr>ts_min := ts_min st @ [p], ts_needRemove := ts_needRemove st \<or> discoChanged (wp_PublicKey p)\<rparr>
              else st\<lparr>ts_trimmed := (ts_trimmed st)(dk := True)\<rparr>)"

definition trim_peers ::
  "'ip netaddr \<Rightarrow> ('ip, 'd, 'h) eng_env \<Rightarrow> (wgkey \<Rightarrow> bool) \<Rightarrow> ('ip, 'd, 'h, 'z) engine_scheme \<Rightarrow> int \<Rightarrow> 'ip trim_state" where
  "trim_peers na env discoChanged e activeCutoff =
     fold (trim_peer na env discoChanged e activeCutoff (length (wc_Peers (e_lastCfgFull e)))) (wc_Peers (e_lastCfgFull e))
       \<lparr>ts_min = [], ts_trackDisco = [], ts_trackIPs = [], ts_trimmed = (\<lambda>_. False), ts_needRemove = False\<rparr>"

text \<open>The loop over the tracked addresses: a new pointer for an address that had none.\<close>

definition track_ip ::
  "('ip \<rightharpoonup> nat) \<Rightarrow> ('ip \<rightharpoonup> nat) \<Rightarrow> 'ip \<Rightarrow> ('ip, 'd, 'h, 'z) engine_scheme \<Rightarrow> ('ip, 'd, 'h, 'z) engine_scheme" where
  "track_ip oldTime oldFunc ip e =
     (let (timePtr, e) = (case oldTime ip of
            Some q \<Rightarrow> (q, e)
          | None \<Rightarrow> (e_nextTime e, e\<lparr>e_nextTime := Suc (e_nextTime e), e_times := (e_times e)(e_nextTime e := 0)\<rparr>));
          e = e\<lparr>e_sentActivityAt := (e_sentActivityAt e)(ip \<mapsto> timePtr)\<rparr>;
          fn = (case oldFunc ip of Some f \<Rightarrow> f | None \<Rightarrow> timePtr)
      in e\<lparr>e_destIPActivityFuncs := (e_destIPActivityFuncs e)(ip \<mapsto> fn)\<rparr>)"

definition updateActivityMapsLocked ::
  "wgkey list \<Rightarrow> 'ip list \<Rightarrow> ('ip, 'd, 'h, 'z) engine_scheme \<Rightarrow> ('ip, 'd, 'h, 'z) engine_scheme" where
  "updateActivityMapsLocked trackDisco trackIPs e =
     (let mr = fold (\<lambda>dk mr. mr(dk \<mapsto> (case e_recvActivityAt e dk of None \<Rightarrow> 0 | Some r \<Rightarrow> r))) trackDisco Map.empty
      in fold (track_ip (e_sentActivityAt e) (e_destIPActivityFuncs e)) trackIPs
           (e\<lparr>e_recvActivityAt := mr, e_sentActivityAt := Map.empty, e_destIPActivityFuncs := Map.empty\<rparr>))"

definition reconfig_dev ::
  "('ip, 'd, 'h) eng_env \<Rightarrow> 'ip wg_config \<Rightarrow> ('ip, 'd, 'h, 'z) engine_scheme \<Rightarrow> (uapi_error option \<times> ('ip, 'd, 'h, 'z) engine_scheme) option" where
  "reconfig_dev env cfg e =
     do { (d, err) \<leftarrow> ReconfigDevice (ee_uapi env) (ee_device env) cfg (e_wgdev e);
          Some (err, e\<lparr>e_wgdev := d\<rparr>) }"

definition maybeReconfigWireguardLocked ::
  "'ip netaddr \<Rightarrow> ('ip, 'd, 'h) eng_env \<Rightarrow> int \<Rightarrow> (wgkey \<Rightarrow> bool) \<Rightarrow> ('ip, 'd, 'h, 'z) engine_scheme \<Rightarrow>
   (uapi_error option \<times> ('ip, 'd, 'h, 'z) engine_scheme) option" where
  "maybeReconfigWireguardLocked na env now discoChanged e =
     (let activeCutoff = now - lazyPeerIdleThreshold;
          st = trim_peers na env discoChanged e activeCutoff;
          min = (e_lastCfgFull e)\<lparr>wc_Peers := ts_min st\<rparr>;
          sum = ee_hashTrim env min (ts_trimmed st) (ts_trackDisco st) (ts_trackIPs st)
      in if sum = e_lastEngineSigTrim e then Some (None, e)
         else do {
           let e = e\<lparr>e_lastEngineSigTrim := sum, e_trimmedDisco := ts_trimmed st\<rparr>;
           let e = updateActivityMapsLocked (ts_trackDisco st) (ts_trackIPs st) e;
           (err, e) \<leftarrow>
             (if ts_needRemove st \<and> list_ex (\<lambda>p. discoChanged (wp_PublicKey p)) (wc_Peers min)
              then reconfig_dev env (min\<lparr>wc_Peers := filter (\<lambda>p. \<not> discoChanged (wp_PublicKey p)) (wc_Peers min)\<rparr>) e
              else Some (None, e));
           if err \<noteq> None then Some (err, e) else reconfig_dev env min e })"

text \<open>
  The function of \<^verbatim>\<open>destIPActivityFuncs\<close> that the wrapper calls for each packet to \<^verbatim>\<open>ip\<close>. A time that has not been set is 0.
\<close>

definition dest_activity ::
  "'ip netaddr \<Rightarrow> ('ip, 'd, 'h) eng_env \<Rightarrow> int \<Rightarrow> 'ip \<Rightarrow> ('ip, 'd, 'h, 'z) engine_scheme \<Rightarrow> ('ip, 'd, 'h, 'z) engine_scheme option" where
  "dest_activity na env now ip e =
     (case e_destIPActivityFuncs e ip of
        None \<Rightarrow> Some e
      | Some timePtr \<Rightarrow>
          (let old = e_times e timePtr;
               elapsed = (if old = 0 then 762642 * 3600 * 1000000000 else now - old);
               e = (if elapsed \<ge> packetSendTimeUpdateFrequency then e\<lparr>e_times := (e_times e)(timePtr := now)\<rparr> else e)
           in if elapsed \<ge> packetSendRecheckWireguardThreshold
              then map_option snd (maybeReconfigWireguardLocked na env now (\<lambda>_. False) e)
              else Some e))"

definition noteReceiveActivity ::
  "'ip netaddr \<Rightarrow> ('ip, 'd, 'h) eng_env \<Rightarrow> int \<Rightarrow> wgkey \<Rightarrow> ('ip, 'd, 'h, 'z) engine_scheme \<Rightarrow> ('ip, 'd, 'h, 'z) engine_scheme option" where
  "noteReceiveActivity na env now dk e =
     (case e_recvActivityAt e dk of
        None \<Rightarrow> Some e
      | Some _ \<Rightarrow>
          (let e = e\<lparr>e_recvActivityAt := (e_recvActivityAt e)(dk \<mapsto> now)\<rparr>;
               e = (if e_lastStatusPollTime e = 0 \<or> now - e_lastStatusPollTime e \<ge> statusPollInterval
                    then e\<lparr>e_lastStatusPollTime := now, e_statusRequests := Suc (e_statusRequests e)\<rparr> else e)
           in if e_trimmedDisco e dk
              then map_option snd (maybeReconfigWireguardLocked na env now (\<lambda>_. False) e)
              else Some e))"

section \<open>Reconfiguration\<close>

definition ipInPrefixes :: "'ip netaddr \<Rightarrow> 'ip \<Rightarrow> 'ip ipprefix list \<Rightarrow> bool" where
  "ipInPrefixes na ip pp = list_ex (\<lambda>p. na_Contains na p ip) pp"

text \<open>The map \<^verbatim>\<open>m\<close> is the list of its keys.\<close>

definition dnsIPsOverTailscale :: "'ip netaddr \<Rightarrow> 'ip dns_cfg \<Rightarrow> 'ip router_config \<Rightarrow> 'ip ipprefix list" where
  "dnsIPsOverTailscale na dnsCfg routerCfg =
     (let add = (\<lambda>resolvers m. fold (\<lambda>resolver m.
            let ip = ipp_IP resolver
            in if ipInPrefixes na ip (rc_Routes routerCfg) \<and> \<not> ipInPrefixes na ip (rc_LocalRoutes routerCfg)
               then List.insert ip m else m) resolvers m);
          m = add (dg_DefaultResolvers dnsCfg) [];
          m = fold (\<lambda>(_, resolvers). add resolvers) (dg_Routes dnsCfg) m
      in map (\<lambda>ip. IPPrefix ip (na_BitLen na ip)) m)"

definition PickLink :: "'ip netaddr \<Rightarrow> string \<Rightarrow> 'ip \<Rightarrow> ('ip, 'd, 'h, 'z) engine_scheme \<Rightarrow> string" where
  "PickLink na tunName ip e = (if NewContainsIPFunc na (e_dnsOverTailscale e) ip then tunName else [])"

definition disco_changed :: "'ip wg_config \<Rightarrow> 'ip wg_config \<Rightarrow> wgkey \<Rightarrow> bool" where
  "disco_changed prev cfg =
     (let prevEP = fold (\<lambda>p m. if DiscoKey_IsZero (ep_DiscoKey (wp_Endpoints p)) then m
                               else m(wp_PublicKey p \<mapsto> ep_DiscoKey (wp_Endpoints p))) (wc_Peers prev) Map.empty
      in fold (\<lambda>p m. if DiscoKey_IsZero (ep_DiscoKey (wp_Endpoints p)) then m
                     else case prevEP (wp_PublicKey p) of
                            None \<Rightarrow> m
                          | Some old \<Rightarrow> if old \<noteq> ep_DiscoKey (wp_Endpoints p) then m(wp_PublicKey p := True) else m)
           (wc_Peers cfg) (\<lambda>_. False))"

definition reconfig_router ::
  "('ip, 'd, 'h) eng_env \<Rightarrow> 'ip router_config \<Rightarrow> 'ip dns_cfg \<Rightarrow> ('ip, 'd, 'h, 'z) engine_scheme \<Rightarrow>
   'ip eng_error option \<times> ('ip, 'd, 'h, 'z) engine_scheme" where
  "reconfig_router env routerCfg dnsCfg e =
     (case ee_routerSet env routerCfg of
        Some err \<Rightarrow> (Some (ErrRouter err), e\<lparr>e_routerHealth := Some err\<rparr>)
      | None \<Rightarrow>
          (let e = e\<lparr>e_routerCfg := Some routerCfg, e_routerHealth := None\<rparr>
           in case ee_dnsSet env dnsCfg of
                Some err \<Rightarrow> (Some (ErrDNS err), e\<lparr>e_dnsHealth := Some err\<rparr>)
              | None \<Rightarrow> (None, e\<lparr>e_dnsCfg := Some dnsCfg, e_dnsHealth := None\<rparr>)))"

text \<open>A nil configuration of the router or of DNS panics; \<open>randomize\<close> is \<^verbatim>\<open>debug.RandomizeClientPort\<close>.\<close>

definition Reconfig ::
  "'ip netaddr \<Rightarrow> ('ip, 'd, 'h) eng_env \<Rightarrow> int \<Rightarrow> 'ip wg_config \<Rightarrow> 'ip router_config option \<Rightarrow> 'ip dns_cfg option \<Rightarrow> bool \<Rightarrow>
   ('ip, 'd, 'h, 'z) engine_scheme \<Rightarrow> ('ip eng_error option \<times> ('ip, 'd, 'h, 'z) engine_scheme) option" where
  "Reconfig na env now cfg routerCfg dnsCfg randomize e =
     do {
       routerCfg \<leftarrow> routerCfg;
       dnsCfg \<leftarrow> dnsCfg;
       let e = e\<lparr>e_localAddrs := rc_LocalAddrs routerCfg, e_lastDNSConfig := Some dnsCfg, e_peerSequence := map wp_PublicKey (wc_Peers cfg)\<rparr>;
       let listenPort = (if randomize then 0 else e_confListenPort e);
       let engineChanged = (ee_hashFull env cfg \<noteq> e_lastEngineSigFull e);
       let routerChanged = (ee_hashRouter env routerCfg dnsCfg \<noteq> e_lastRouterSig e);
       let e = e\<lparr>e_lastEngineSigFull := ee_hashFull env cfg, e_lastRouterSig := ee_hashRouter env routerCfg dnsCfg\<rparr>;
       if \<not> engineChanged \<and> \<not> routerChanged \<and> listenPort = e_localPort e then Some (Some ErrNoChanges, e)
       else do {
         let discoChanged = disco_changed (e_lastCfgFull e) cfg;
         let e = e\<lparr>e_dnsOverTailscale := dnsIPsOverTailscale na dnsCfg routerCfg, e_lastCfgFull := cfg,
                   e_magic := e_magic e @ [SetPrivateKey (wc_PrivateKey cfg), UpdatePeers (map wp_PublicKey (wc_Peers cfg)),
                                           SetPreferredPort listenPort]\<rparr>;
         (err, e) \<leftarrow> maybeReconfigWireguardLocked na env now discoChanged e;
         if err \<noteq> None then Some (map_option ErrWG err, e)
         else if routerChanged then Some (reconfig_router env routerCfg dnsCfg e)
         else Some (None, e) } }"

section \<open>What is trimmed\<close>

text \<open>A peer is kept if it cannot be trimmed or has been active since the cutoff.\<close>

definition keeps :: "'ip netaddr \<Rightarrow> ('ip, 'd, 'h) eng_env \<Rightarrow> ('ip, 'd, 'h, 'z) engine_scheme \<Rightarrow> int \<Rightarrow> 'ip wg_peer \<Rightarrow> bool" where
  "keeps na env e cutoff p \<longleftrightarrow> \<not> isTrimmablePeer na env p (length (wc_Peers (e_lastCfgFull e))) \<or>
     (\<exists>a\<in>set (wp_AllowedIPs p). isActiveSince e (ep_DiscoKey (wp_Endpoints p)) (pfx_IP a) cutoff)"

abbreviation disco_of :: "'ip wg_peer \<Rightarrow> wgkey" where
  "disco_of p \<equiv> ep_DiscoKey (wp_Endpoints p)"

lemma trim_fold:
  "let st' = fold (trim_peer na env dc e cutoff n) ps st;
       trimmable = (\<lambda>p. isTrimmablePeer na env p n);
       active = (\<lambda>p. \<exists>a\<in>set (wp_AllowedIPs p). isActiveSince e (disco_of p) (pfx_IP a) cutoff);
       kept = filter (\<lambda>p. \<not> trimmable p \<or> active p) ps
   in ts_min st' = ts_min st @ kept \<and>
      ts_trackDisco st' = ts_trackDisco st @ map disco_of (filter trimmable ps) \<and>
      ts_trackIPs st' = ts_trackIPs st @ concat (map (\<lambda>p. map pfx_IP (wp_AllowedIPs p)) (filter trimmable ps)) \<and>
      ts_trimmed st' = (\<lambda>dk. ts_trimmed st dk \<or> (\<exists>p\<in>set ps. trimmable p \<and> \<not> active p \<and> disco_of p = dk)) \<and>
      ts_needRemove st' = (ts_needRemove st \<or> (\<exists>p\<in>set kept. dc (wp_PublicKey p)))"
proof (induction ps arbitrary: st)
  case (Cons p ps)
  show ?case using Cons.IH [of "trim_peer na env dc e cutoff n p st"]
    by (auto simp: Let_def trim_peer_def list_ex_iff fun_eq_iff)
qed simp

definition track_disco :: "'ip netaddr \<Rightarrow> ('ip, 'd, 'h) eng_env \<Rightarrow> 'ip wg_config \<Rightarrow> wgkey list" where
  "track_disco na env cfg = map disco_of (filter (\<lambda>p. isTrimmablePeer na env p (length (wc_Peers cfg))) (wc_Peers cfg))"

definition tracked_ips :: "'ip netaddr \<Rightarrow> ('ip, 'd, 'h) eng_env \<Rightarrow> 'ip wg_config \<Rightarrow> 'ip list" where
  "tracked_ips na env cfg =
     concat (map (\<lambda>p. map pfx_IP (wp_AllowedIPs p)) (filter (\<lambda>p. isTrimmablePeer na env p (length (wc_Peers cfg))) (wc_Peers cfg)))"

definition idle_disco :: "'ip netaddr \<Rightarrow> ('ip, 'd, 'h) eng_env \<Rightarrow> ('ip, 'd, 'h, 'z) engine_scheme \<Rightarrow> int \<Rightarrow> wgkey \<Rightarrow> bool" where
  "idle_disco na env e cutoff dk \<longleftrightarrow>
     (\<exists>p\<in>set (wc_Peers (e_lastCfgFull e)). \<not> keeps na env e cutoff p \<and> disco_of p = dk)"

lemma trim_peers_eq:
  "ts_min (trim_peers na env dc e cutoff) = filter (keeps na env e cutoff) (wc_Peers (e_lastCfgFull e))"
  "ts_trackDisco (trim_peers na env dc e cutoff) = track_disco na env (e_lastCfgFull e)"
  "ts_trackIPs (trim_peers na env dc e cutoff) = tracked_ips na env (e_lastCfgFull e)"
  "ts_trimmed (trim_peers na env dc e cutoff) = idle_disco na env e cutoff"
  "ts_needRemove (trim_peers na env dc e cutoff) \<longleftrightarrow>
     (\<exists>p\<in>set (wc_Peers (e_lastCfgFull e)). keeps na env e cutoff p \<and> dc (wp_PublicKey p))"
proof -
  have k: "keeps na env e cutoff = (\<lambda>p. \<not> isTrimmablePeer na env p (length (wc_Peers (e_lastCfgFull e))) \<or>
      (\<exists>a\<in>set (wp_AllowedIPs p). isActiveSince e (disco_of p) (pfx_IP a) cutoff))"
    by (rule ext) (simp add: keeps_def)
  note f = trim_fold [of na env dc e cutoff "length (wc_Peers (e_lastCfgFull e))" "wc_Peers (e_lastCfgFull e)"
      "\<lparr>ts_min = [], ts_trackDisco = [], ts_trackIPs = [], ts_trimmed = (\<lambda>_. False), ts_needRemove = False\<rparr>",
      unfolded Let_def, folded k trim_peers_def]
  show "ts_min (trim_peers na env dc e cutoff) = filter (keeps na env e cutoff) (wc_Peers (e_lastCfgFull e))"
    "ts_trackDisco (trim_peers na env dc e cutoff) = track_disco na env (e_lastCfgFull e)"
    "ts_trackIPs (trim_peers na env dc e cutoff) = tracked_ips na env (e_lastCfgFull e)"
    using f by (simp_all add: track_disco_def tracked_ips_def)
  show "ts_trimmed (trim_peers na env dc e cutoff) = idle_disco na env e cutoff"
    using f by (auto simp: idle_disco_def keeps_def fun_eq_iff)
  show "ts_needRemove (trim_peers na env dc e cutoff) \<longleftrightarrow>
     (\<exists>p\<in>set (wc_Peers (e_lastCfgFull e)). keeps na env e cutoff p \<and> dc (wp_PublicKey p))"
    using f by auto
qed

text \<open>The configuration for the device when only recently active peers are kept.\<close>

definition min_config :: "'ip netaddr \<Rightarrow> ('ip, 'd, 'h) eng_env \<Rightarrow> int \<Rightarrow> ('ip, 'd, 'h, 'z) engine_scheme \<Rightarrow> 'ip wg_config" where
  "min_config na env now e =
     (e_lastCfgFull e)\<lparr>wc_Peers := filter (keeps na env e (now - lazyPeerIdleThreshold)) (wc_Peers (e_lastCfgFull e))\<rparr>"

definition trim_sum :: "'ip netaddr \<Rightarrow> ('ip, 'd, 'h) eng_env \<Rightarrow> int \<Rightarrow> ('ip, 'd, 'h, 'z) engine_scheme \<Rightarrow> 'h" where
  "trim_sum na env now e = ee_hashTrim env (min_config na env now e) (idle_disco na env e (now - lazyPeerIdleThreshold))
     (track_disco na env (e_lastCfgFull e)) (tracked_ips na env (e_lastCfgFull e))"

text \<open>The state in which the device is reconfigured.\<close>

definition trimmed_state :: "'ip netaddr \<Rightarrow> ('ip, 'd, 'h) eng_env \<Rightarrow> int \<Rightarrow> ('ip, 'd, 'h, 'z) engine_scheme \<Rightarrow> ('ip, 'd, 'h, 'z) engine_scheme" where
  "trimmed_state na env now e =
     updateActivityMapsLocked (track_disco na env (e_lastCfgFull e)) (tracked_ips na env (e_lastCfgFull e))
       (e\<lparr>e_lastEngineSigTrim := trim_sum na env now e, e_trimmedDisco := idle_disco na env e (now - lazyPeerIdleThreshold)\<rparr>)"

lemma maybeReconfig_unchanged:
  "trim_sum na env now e = e_lastEngineSigTrim e \<Longrightarrow> maybeReconfigWireguardLocked na env now dc e = Some (None, e)"
  by (simp add: maybeReconfigWireguardLocked_def trim_peers_eq trim_sum_def min_config_def)

lemma maybeReconfig_changed:
  assumes "trim_sum na env now e \<noteq> e_lastEngineSigTrim e"
  shows "maybeReconfigWireguardLocked na env now dc e =
    do { (err, e') \<leftarrow>
           (if \<exists>p\<in>set (wc_Peers (min_config na env now e)). dc (wp_PublicKey p)
            then reconfig_dev env ((min_config na env now e)\<lparr>wc_Peers :=
              filter (\<lambda>p. \<not> dc (wp_PublicKey p)) (wc_Peers (min_config na env now e))\<rparr>) (trimmed_state na env now e)
            else Some (None, trimmed_state na env now e));
         if err \<noteq> None then Some (err, e') else reconfig_dev env (min_config na env now e) e' }"
proof -
  have cond: "(ts_needRemove (trim_peers na env dc e cutoff) \<and> list_ex (\<lambda>p. dc (wp_PublicKey p)) ps) =
      (\<exists>p\<in>set ps. dc (wp_PublicKey p))" if "ps = filter (keeps na env e cutoff) (wc_Peers (e_lastCfgFull e))" for cutoff ps
    unfolding that by (auto simp: trim_peers_eq(5) list_ex_iff)
  have peers: "wc_Peers (min_config na env now e) = filter (keeps na env e (now - lazyPeerIdleThreshold)) (wc_Peers (e_lastCfgFull e))"
    by (simp add: min_config_def)
  show ?thesis
    unfolding maybeReconfigWireguardLocked_def Let_def trim_peers_eq(1-4) min_config_def [symmetric] trim_sum_def [symmetric]
      if_not_P [OF assms] trimmed_state_def [symmetric] cond [OF peers] ..
qed

lemma reconfig_dev_state: "reconfig_dev env cfg e = Some (err, e') \<Longrightarrow> \<exists>d. e' = e\<lparr>e_wgdev := d\<rparr>"
  by (auto simp: reconfig_dev_def split: Option.bind_splits prod.splits)

text \<open>Apart from the device, the state after a change is the trimmed state, whether the device accepts it or not.\<close>

lemma maybeReconfig_state:
  assumes "maybeReconfigWireguardLocked na env now dc e = Some (err, e')"
  shows "(trim_sum na env now e = e_lastEngineSigTrim e \<and> e' = e) \<or>
    (\<exists>d. e' = (trimmed_state na env now e)\<lparr>e_wgdev := d\<rparr>)"
proof (cases "trim_sum na env now e = e_lastEngineSigTrim e")
  case True
  with assms show ?thesis by (simp add: maybeReconfig_unchanged)
next
  case False
  let ?t = "trimmed_state na env now e"
  have r: "\<exists>d. e2 = ?t\<lparr>e_wgdev := d\<rparr>" if "reconfig_dev env cfg e1 = Some (er, e2)" "\<exists>d. e1 = ?t\<lparr>e_wgdev := d\<rparr>" for cfg er e1 e2
    using reconfig_dev_state [OF that(1)] that(2) by auto
  have t: "\<exists>d. ?t = ?t\<lparr>e_wgdev := d\<rparr>" by (rule exI [of _ "e_wgdev ?t"]) simp
  show ?thesis
    using assms t unfolding maybeReconfig_changed [OF False]
    by (auto split: Option.bind_splits if_splits dest!: r)
qed

section \<open>Tracking activity\<close>

definition same_config :: "('ip, 'd, 'h, 'z) engine_scheme \<Rightarrow> ('ip, 'd, 'h, 'z) engine_scheme \<Rightarrow> bool" where
  "same_config e e' \<longleftrightarrow> e_recvActivityAt e' = e_recvActivityAt e \<and> e_trimmedDisco e' = e_trimmedDisco e \<and>
     e_lastEngineSigTrim e' = e_lastEngineSigTrim e \<and> e_lastCfgFull e' = e_lastCfgFull e \<and> e_wgdev e' = e_wgdev e \<and>
     e_lastEngineSigFull e' = e_lastEngineSigFull e \<and> e_lastRouterSig e' = e_lastRouterSig e \<and> e_localAddrs e' = e_localAddrs e \<and>
     e_lastDNSConfig e' = e_lastDNSConfig e \<and> e_peerSequence e' = e_peerSequence e \<and> e_confListenPort e' = e_confListenPort e \<and> e_localPort e' = e_localPort e"

text \<open>Only new pointers are added, and their times are 0.\<close>

definition grows :: "('ip, 'd, 'h, 'z) engine_scheme \<Rightarrow> ('ip, 'd, 'h, 'z) engine_scheme \<Rightarrow> bool" where
  "grows e e' \<longleftrightarrow> same_config e e' \<and> e_nextTime e \<le> e_nextTime e' \<and> (\<forall>q < e_nextTime e. e_times e' q = e_times e q) \<and>
     (\<forall>q. e_nextTime e \<le> q \<and> q < e_nextTime e' \<longrightarrow> e_times e' q = 0)"

lemma grows_trans: "grows a b \<Longrightarrow> grows b c \<Longrightarrow> grows a c"
proof -
  assume ab: "grows a b" and bc: "grows b c"
  have "e_times c q = 0" if "e_nextTime a \<le> q" "q < e_nextTime c" for q
    using ab bc that by (cases "q < e_nextTime b") (simp_all add: grows_def)
  moreover have "e_times c q = e_times a q" if "q < e_nextTime a" for q
    using ab bc that by (simp add: grows_def)
  moreover have "same_config a c" "e_nextTime a \<le> e_nextTime c" using ab bc by (simp_all add: grows_def same_config_def)
  ultimately show "grows a c" by (simp add: grows_def)
qed

lemma track_ip_simps:
  "oldTime ip = Some q \<Longrightarrow> track_ip oldTime oldFunc ip e = e\<lparr>e_sentActivityAt := (e_sentActivityAt e)(ip \<mapsto> q),
     e_destIPActivityFuncs := (e_destIPActivityFuncs e)(ip \<mapsto> (case oldFunc ip of Some f \<Rightarrow> f | None \<Rightarrow> q))\<rparr>"
  "oldTime ip = None \<Longrightarrow> track_ip oldTime oldFunc ip e = e\<lparr>e_times := (e_times e)(e_nextTime e := 0), e_nextTime := Suc (e_nextTime e),
     e_sentActivityAt := (e_sentActivityAt e)(ip \<mapsto> e_nextTime e),
     e_destIPActivityFuncs := (e_destIPActivityFuncs e)(ip \<mapsto> (case oldFunc ip of Some f \<Rightarrow> f | None \<Rightarrow> e_nextTime e))\<rparr>"
  by (simp_all add: track_ip_def)

lemma grows_track_ip: "grows e (track_ip oldTime oldFunc ip e)"
  by (cases "oldTime ip") (auto simp: track_ip_simps grows_def same_config_def)

lemma grows_track_ips: "grows e (fold (track_ip oldTime oldFunc) ips e)"
proof (induction ips arbitrary: e)
  case (Cons ip ips)
  then show ?case using grows_trans [OF grows_track_ip Cons.IH] by simp
qed (simp add: grows_def same_config_def)

text \<open>The pointer of a tracked address is its old one, or a new one, and the two maps agree.\<close>

definition pointer_ok :: "('ip \<rightharpoonup> nat) \<Rightarrow> nat \<Rightarrow> ('ip, 'd, 'h, 'z) engine_scheme \<Rightarrow> 'ip \<Rightarrow> bool" where
  "pointer_ok oldTime n e ip \<longleftrightarrow> (\<exists>q. e_sentActivityAt e ip = Some q \<and>
     (case oldTime ip of Some q0 \<Rightarrow> q = q0 | None \<Rightarrow> n \<le> q \<and> q < e_nextTime e))"

lemma track_ips_pointers:
  assumes "n \<le> e_nextTime e" "e_destIPActivityFuncs e = e_sentActivityAt e" "\<forall>ip\<in>dom (e_sentActivityAt e). pointer_ok old n e ip"
  shows "let e' = fold (track_ip old old) ips e in e_destIPActivityFuncs e' = e_sentActivityAt e' \<and>
    dom (e_sentActivityAt e') = dom (e_sentActivityAt e) \<union> set ips \<and> (\<forall>ip\<in>dom (e_sentActivityAt e'). pointer_ok old n e' ip)"
  using assms
proof (induction ips arbitrary: e)
  case (Cons ip ips)
  let ?e = "track_ip old old ip e"
  have "n \<le> e_nextTime ?e" "e_destIPActivityFuncs ?e = e_sentActivityAt ?e" "dom (e_sentActivityAt ?e) = insert ip (dom (e_sentActivityAt e))"
    using Cons.prems(1,2) by (cases "old ip"; simp add: track_ip_simps)+
  moreover have "\<forall>i\<in>dom (e_sentActivityAt ?e). pointer_ok old n ?e i"
  proof
    fix i assume i: "i \<in> dom (e_sentActivityAt ?e)"
    show "pointer_ok old n ?e i"
    proof (cases "i = ip")
      case True
      with Cons.prems(1) show ?thesis by (cases "old ip") (simp_all add: track_ip_simps pointer_ok_def)
    next
      case False
      then have "i \<in> dom (e_sentActivityAt e)" using i by (cases "old ip") (auto simp: track_ip_simps)
      with Cons.prems(3) have "pointer_ok old n e i" by blast
      with False show ?thesis by (cases "old ip"; cases "old i") (auto simp: track_ip_simps pointer_ok_def)
    qed
  qed
  ultimately show ?case using Cons.IH [of ?e] by (simp add: Let_def)
qed (simp add: Let_def)

text \<open>
  The two maps of pointers agree, so that the function the wrapper calls writes the time that \<^verbatim>\<open>isActiveSince\<close> reads,
  and exactly the given keys and addresses are tracked.
\<close>

definition maps_inv :: "('ip, 'd, 'h, 'z) engine_scheme \<Rightarrow> wgkey list \<Rightarrow> 'ip list \<Rightarrow> bool" where
  "maps_inv e tD tI \<longleftrightarrow> e_destIPActivityFuncs e = e_sentActivityAt e \<and> (\<forall>q\<in>ran (e_sentActivityAt e). q < e_nextTime e) \<and>
     dom (e_recvActivityAt e) = set tD \<and> dom (e_sentActivityAt e) = set tI"

lemma fold_recv: "fold (\<lambda>dk mr. mr(dk \<mapsto> f dk)) ks m = (\<lambda>k. if k \<in> set ks then Some (f k) else m k)"
  by (induction ks arbitrary: m) (auto simp: fun_eq_iff)

lemma updateActivityMaps_spec:
  fixes e :: "('ip, 'd, 'h, 'z) engine_scheme" and tD :: "wgkey list" and tI :: "'ip list"
  assumes inv: "maps_inv e tD0 tI0"
  defines "e' \<equiv> updateActivityMapsLocked tD tI e"
  shows "maps_inv e' tD tI" "e_trimmedDisco e' = e_trimmedDisco e" "e_lastEngineSigTrim e' = e_lastEngineSigTrim e"
    "e_lastCfgFull e' = e_lastCfgFull e" "e_wgdev e' = e_wgdev e"
    "\<And>dk. e_recvActivityAt e' dk = (if dk \<in> set tD then Some (case e_recvActivityAt e dk of None \<Rightarrow> 0 | Some r \<Rightarrow> r) else None)"
    "\<And>ip q. e_sentActivityAt e' ip = Some q \<Longrightarrow> e_times e' q = (case e_sentActivityAt e ip of Some q0 \<Rightarrow> e_times e q0 | None \<Rightarrow> 0)"
proof -
  define e0 where "e0 = e\<lparr>e_recvActivityAt := (\<lambda>dk. if dk \<in> set tD then Some (case e_recvActivityAt e dk of None \<Rightarrow> 0 | Some r \<Rightarrow> r) else None),
    e_sentActivityAt := Map.empty, e_destIPActivityFuncs := Map.empty\<rparr>"
  have agree: "e_destIPActivityFuncs e = e_sentActivityAt e" and bound: "\<forall>q\<in>ran (e_sentActivityAt e). q < e_nextTime e"
    using inv by (simp_all add: maps_inv_def)
  have e': "e' = fold (track_ip (e_sentActivityAt e) (e_sentActivityAt e)) tI e0"
    by (simp add: e'_def updateActivityMapsLocked_def fold_recv e0_def agree)
  have g: "grows e0 e'" unfolding e' by (rule grows_track_ips)
  then show "e_trimmedDisco e' = e_trimmedDisco e" "e_lastEngineSigTrim e' = e_lastEngineSigTrim e"
    "e_lastCfgFull e' = e_lastCfgFull e" "e_wgdev e' = e_wgdev e"
    and recv: "\<And>dk. e_recvActivityAt e' dk = (if dk \<in> set tD then Some (case e_recvActivityAt e dk of None \<Rightarrow> 0 | Some r \<Rightarrow> r) else None)"
    by (simp_all add: grows_def same_config_def e0_def)
  have p: "e_destIPActivityFuncs e' = e_sentActivityAt e'" "dom (e_sentActivityAt e') = set tI"
    "\<forall>ip\<in>dom (e_sentActivityAt e'). pointer_ok (e_sentActivityAt e) (e_nextTime e) e' ip"
    using track_ips_pointers [of "e_nextTime e" e0 "e_sentActivityAt e" tI] unfolding e' [symmetric]
    by (simp_all add: e0_def Let_def)
  have n: "e_nextTime e \<le> e_nextTime e'" "e_nextTime e0 = e_nextTime e" "e_times e0 = e_times e"
    using g by (simp_all add: grows_def e0_def)
  have pt: "(\<exists>q0. e_sentActivityAt e ip = Some q0 \<and> q = q0 \<and> q < e_nextTime e) \<or>
      (e_sentActivityAt e ip = None \<and> e_nextTime e \<le> q \<and> q < e_nextTime e')" if "e_sentActivityAt e' ip = Some q" for ip q
  proof -
    have "pointer_ok (e_sentActivityAt e) (e_nextTime e) e' ip" using p(3) that by blast
    then show ?thesis using that bound ranI [of "e_sentActivityAt e" ip]
      by (cases "e_sentActivityAt e ip") (auto simp: pointer_ok_def)
  qed
  have "dom (e_recvActivityAt e') = set tD" by (auto simp: recv dom_def)
  moreover have "\<forall>q\<in>ran (e_sentActivityAt e'). q < e_nextTime e'" using pt n(1) by (fastforce simp: ran_def)
  ultimately show "maps_inv e' tD tI" using p(1,2) by (simp add: maps_inv_def)
  show "e_times e' q = (case e_sentActivityAt e ip of Some q0 \<Rightarrow> e_times e q0 | None \<Rightarrow> 0)" if "e_sentActivityAt e' ip = Some q" for ip q
    using pt [OF that] g n by (auto simp: grows_def)
qed

lemma isActiveSince_fields [simp]:
  "isActiveSince (e\<lparr>e_wgdev := d\<rparr>) dk ip t = isActiveSince e dk ip t"
  "isActiveSince (e\<lparr>e_lastEngineSigTrim := s, e_trimmedDisco := m\<rparr>) dk ip t = isActiveSince e dk ip t"
  unfolding isActiveSince_def by (simp_all split: option.split)

text \<open>Nothing that was idle at a positive time becomes active.\<close>

lemma updateActivityMaps_active:
  assumes "maps_inv e tD0 tI0" "0 \<le> t" "isActiveSince (updateActivityMapsLocked tD tI e) dk ip t"
  shows "isActiveSince e dk ip t"
proof -
  note u = updateActivityMaps_spec [OF assms(1), of tD tI]
  show ?thesis
    using assms(2,3) u(6) [of dk] u(7) [of ip]
    by (auto simp: isActiveSince_def split: if_splits option.splits)
qed

definition hash_ok :: "('ip, 'd, 'h) eng_env \<Rightarrow> 'h \<Rightarrow> bool" where
  "hash_ok env zero \<longleftrightarrow> (\<forall>c t d i. ee_hashTrim env c t d i \<noteq> zero) \<and>
     (\<forall>c t d i c' t' d' i'. ee_hashTrim env c t d i = ee_hashTrim env c' t' d' i' \<longrightarrow> c = c' \<and> t = t' \<and> d = d' \<and> i = i')"

definition sig_ok :: "('ip, 'd, 'h) eng_env \<Rightarrow> 'h \<Rightarrow> ('ip, 'd, 'h, 'z) engine_scheme \<Rightarrow> wgkey list \<Rightarrow> 'ip list \<Rightarrow> bool" where
  "sig_ok env zero e tD tI \<longleftrightarrow> (e_lastEngineSigTrim e = zero \<and> e_trimmedDisco e = (\<lambda>_. False)) \<or>
     (\<exists>c. e_lastEngineSigTrim e = ee_hashTrim env c (e_trimmedDisco e) tD tI)"

definition lazy_inv :: "'ip netaddr \<Rightarrow> ('ip, 'd, 'h) eng_env \<Rightarrow> 'h \<Rightarrow> int \<Rightarrow> ('ip, 'd, 'h, 'z) engine_scheme \<Rightarrow> bool" where
  "lazy_inv na env zero now e \<longleftrightarrow>
     maps_inv e (track_disco na env (e_lastCfgFull e)) (tracked_ips na env (e_lastCfgFull e)) \<and>
     sig_ok env zero e (track_disco na env (e_lastCfgFull e)) (tracked_ips na env (e_lastCfgFull e)) \<and>
     (\<forall>dk. e_trimmedDisco e dk \<longrightarrow> idle_disco na env e (now - lazyPeerIdleThreshold) dk)"

lemma hash_okD:
  "hash_ok env zero \<Longrightarrow> ee_hashTrim env c t d i = ee_hashTrim env c' t' d' i' \<Longrightarrow> t = t' \<and> d = d' \<and> i = i'"
  "hash_ok env zero \<Longrightarrow> ee_hashTrim env c t d i \<noteq> zero"
  unfolding hash_ok_def by blast+

lemma keeps_cong:
  "e_lastCfgFull e' = e_lastCfgFull e \<Longrightarrow> (\<And>dk ip. isActiveSince e' dk ip t \<Longrightarrow> isActiveSince e dk ip t) \<Longrightarrow>
   keeps na env e' t p \<Longrightarrow> keeps na env e t p"
  by (auto simp: keeps_def)

lemma idle_disco_mono:
  "e_lastCfgFull e' = e_lastCfgFull e \<Longrightarrow> (\<And>dk ip. isActiveSince e' dk ip t \<Longrightarrow> isActiveSince e dk ip t) \<Longrightarrow>
   idle_disco na env e t dk \<Longrightarrow> idle_disco na env e' t dk"
  unfolding idle_disco_def using keeps_cong [of e' e t na env] by fastforce

lemma maybeReconfig_inv:
  assumes maps: "maps_inv e tD tI" and sig: "sig_ok env zero e tD tI" and h: "hash_ok env zero" and now: "lazyPeerIdleThreshold \<le> now"
    and run: "maybeReconfigWireguardLocked na env now dc e = Some (err, e')"
  shows "lazy_inv na env zero now e' \<and> e_lastCfgFull e' = e_lastCfgFull e \<and> e_trimmedDisco e' = idle_disco na env e (now - lazyPeerIdleThreshold)"
  using maybeReconfig_state [OF run]
proof
  let ?t = "now - lazyPeerIdleThreshold"
  assume s: "trim_sum na env now e = e_lastEngineSigTrim e \<and> e' = e"
  have "trim_sum na env now e \<noteq> zero" unfolding trim_sum_def by (rule hash_okD [OF h])
  with s have "e_lastEngineSigTrim e \<noteq> zero" by simp
  with sig obtain c where "e_lastEngineSigTrim e = ee_hashTrim env c (e_trimmedDisco e) tD tI" by (auto simp: sig_ok_def)
  with s have "ee_hashTrim env c (e_trimmedDisco e) tD tI = ee_hashTrim env (min_config na env now e) (idle_disco na env e ?t)
     (track_disco na env (e_lastCfgFull e)) (tracked_ips na env (e_lastCfgFull e))" by (simp add: trim_sum_def)
  from hash_okD(1) [OF h this] have eq: "e_trimmedDisco e = idle_disco na env e ?t" "tD = track_disco na env (e_lastCfgFull e)"
    "tI = tracked_ips na env (e_lastCfgFull e)" by simp_all
  with maps sig s show ?thesis by (simp add: lazy_inv_def)
next
  let ?t = "now - lazyPeerIdleThreshold"
  let ?e1 = "e\<lparr>e_lastEngineSigTrim := trim_sum na env now e, e_trimmedDisco := idle_disco na env e ?t\<rparr>"
  assume "\<exists>d. e' = (trimmed_state na env now e)\<lparr>e_wgdev := d\<rparr>"
  then obtain d where e': "e' = (trimmed_state na env now e)\<lparr>e_wgdev := d\<rparr>" by blast
  have m1: "maps_inv ?e1 tD tI" using maps by (simp add: maps_inv_def)
  note u = updateActivityMaps_spec [OF m1, of "track_disco na env (e_lastCfgFull e)" "tracked_ips na env (e_lastCfgFull e)",
      folded trimmed_state_def]
  have act: "isActiveSince e dk ip ?t" if "isActiveSince e' dk ip ?t" for dk ip
  proof -
    have "isActiveSince (trimmed_state na env now e) dk ip ?t" using that by (simp add: e')
    then have "isActiveSince ?e1 dk ip ?t"
      unfolding trimmed_state_def using updateActivityMaps_active [OF m1] now by simp
    then show ?thesis by simp
  qed
  have f: "e_lastCfgFull e' = e_lastCfgFull e" "e_trimmedDisco e' = idle_disco na env e ?t" "e_lastEngineSigTrim e' = trim_sum na env now e"
    using u by (simp_all add: e')
  have "idle_disco na env e' ?t dk" if "idle_disco na env e ?t dk" for dk
    using idle_disco_mono [OF f(1) act that] .
  then show ?thesis
    using u(1) f by (auto simp: lazy_inv_def maps_inv_def sig_ok_def e' trim_sum_def)
qed

lemma active_antimono: "isActiveSince e dk ip t' \<Longrightarrow> t \<le> t' \<Longrightarrow> isActiveSince e dk ip t"
  unfolding isActiveSince_def by (cases "e_sentActivityAt e ip") (simp_all split: if_splits)

lemma keeps_antimono:
  assumes "keeps na env e t' p" "t \<le> t'"
  shows "keeps na env e t p"
  using assms(1) active_antimono [OF _ assms(2), of e "disco_of p"] unfolding keeps_def by blast

lemma idle_disco_later: "idle_disco na env e t dk \<Longrightarrow> t \<le> t' \<Longrightarrow> idle_disco na env e t' dk"
  unfolding idle_disco_def using keeps_antimono by blast

lemma lazy_inv_later: "lazy_inv na env zero now e \<Longrightarrow> now \<le> now' \<Longrightarrow> lazy_inv na env zero now' e"
  unfolding lazy_inv_def using idle_disco_later [of na env e "now - lazyPeerIdleThreshold" _ "now' - lazyPeerIdleThreshold"] by simp

lemma lazy_inv_more:
  assumes "lazy_inv na env zero now e"
    "e_recvActivityAt e' = e_recvActivityAt e" "e_sentActivityAt e' = e_sentActivityAt e" "e_destIPActivityFuncs e' = e_destIPActivityFuncs e"
    "e_times e' = e_times e" "e_nextTime e' = e_nextTime e" "e_trimmedDisco e' = e_trimmedDisco e"
    "e_lastEngineSigTrim e' = e_lastEngineSigTrim e" "e_lastCfgFull e' = e_lastCfgFull e"
  shows "lazy_inv na env zero now e'"
proof -
  have "isActiveSince e' = isActiveSince e" unfolding isActiveSince_def [abs_def] assms(2-5) ..
  then have "keeps na env e' = keeps na env e" unfolding keeps_def [abs_def] assms(9) by simp
  then have "idle_disco na env e' = idle_disco na env e" unfolding idle_disco_def [abs_def] assms(9) by simp
  then show ?thesis using assms(1) unfolding lazy_inv_def maps_inv_def sig_ok_def assms(2-9) by simp
qed

lemma maybeReconfig_keeps_inv:
  assumes "maybeReconfigWireguardLocked na env now dc e1 = Some (err, e')" "lazy_inv na env zero now e" "hash_ok env zero"
    "lazyPeerIdleThreshold \<le> now" "\<And>tD tI. maps_inv e1 tD tI = maps_inv e tD tI" "\<And>tD tI. sig_ok env zero e1 tD tI = sig_ok env zero e tD tI"
  shows "lazy_inv na env zero now e'"
proof -
  let ?d = "track_disco na env (e_lastCfgFull e)" and ?i = "tracked_ips na env (e_lastCfgFull e)"
  have "maps_inv e1 ?d ?i" "sig_ok env zero e1 ?d ?i" using assms(2) unfolding assms(5,6) lazy_inv_def by blast+
  from maybeReconfig_inv [OF this assms(3,4,1)] show ?thesis ..
qed

text \<open>Sending to an address, receiving from a peer, and a new configuration keep the invariant.\<close>

lemma dest_activity_inv:
  assumes inv: "lazy_inv na env zero now e" and h: "hash_ok env zero" and now: "lazyPeerIdleThreshold \<le> now"
    and run: "dest_activity na env now ip e = Some e'"
  shows "lazy_inv na env zero now e'"
proof (cases "e_sentActivityAt e ip")
  case None
  with inv run show ?thesis by (simp add: dest_activity_def lazy_inv_def maps_inv_def)
next
  case (Some q)
  let ?el = "if e_times e q = 0 then 762642 * 3600 * 1000000000 else now - e_times e q"
  let ?e1 = "e\<lparr>e_times := (e_times e)(q := now)\<rparr>"
  have f: "e_destIPActivityFuncs e ip = Some q" using inv Some by (simp add: lazy_inv_def maps_inv_def)
  have m1: "maps_inv ?e1 tD tI = maps_inv e tD tI" "sig_ok env zero ?e1 tD tI = sig_ok env zero e tD tI" for tD tI
    by (simp_all add: maps_inv_def sig_ok_def)
  consider "packetSendRecheckWireguardThreshold \<le> ?el" | "packetSendTimeUpdateFrequency \<le> ?el" "?el < packetSendRecheckWireguardThreshold"
    | "?el < packetSendTimeUpdateFrequency" by linarith
  then show ?thesis
  proof cases
    case 1
    then have "map_option snd (maybeReconfigWireguardLocked na env now (\<lambda>_. False) ?e1) = Some e'"
      using run f by (simp add: dest_activity_def Let_def packetSendRecheckWireguardThreshold_def packetSendTimeUpdateFrequency_def split: if_splits)
    then obtain err where "maybeReconfigWireguardLocked na env now (\<lambda>_. False) ?e1 = Some (err, e')" by auto
    then show ?thesis by (rule maybeReconfig_keeps_inv [OF _ inv h now m1])
  next
    case 2
    then have e': "e' = ?e1" using run f by (simp add: dest_activity_def Let_def split: if_splits)
    have late: "now - lazyPeerIdleThreshold < e_times e q"
      using 2 by (simp add: packetSendRecheckWireguardThreshold_def lazyPeerIdleThreshold_def split: if_splits)
    then have "isActiveSince e dk i (now - lazyPeerIdleThreshold)" if "isActiveSince ?e1 dk i (now - lazyPeerIdleThreshold)" for dk i
      using that by (auto simp: isActiveSince_def split: option.splits if_splits)
    then have "idle_disco na env ?e1 (now - lazyPeerIdleThreshold) dk" if "idle_disco na env e (now - lazyPeerIdleThreshold) dk" for dk
      by (intro idle_disco_mono [OF _ _ that]) simp_all
    with inv m1 show ?thesis by (simp add: lazy_inv_def e')
  next
    case 3
    then have "e' = e" using run f
      by (simp add: dest_activity_def Let_def packetSendRecheckWireguardThreshold_def packetSendTimeUpdateFrequency_def split: if_splits)
    with inv show ?thesis by simp
  qed
qed

lemma noteReceiveActivity_inv:
  assumes inv: "lazy_inv na env zero now e" and h: "hash_ok env zero" and now: "lazyPeerIdleThreshold \<le> now"
    and run: "noteReceiveActivity na env now dk e = Some e'"
  shows "lazy_inv na env zero now e'"
proof (cases "e_recvActivityAt e dk")
  case None
  with inv run show ?thesis by (simp add: noteReceiveActivity_def)
next
  case (Some r)
  let ?e1 = "e\<lparr>e_recvActivityAt := (e_recvActivityAt e)(dk \<mapsto> now)\<rparr>"
  define e2 where "e2 = (if e_lastStatusPollTime e = 0 \<or> now - e_lastStatusPollTime e \<ge> statusPollInterval
     then ?e1\<lparr>e_lastStatusPollTime := now, e_statusRequests := Suc (e_statusRequests e)\<rparr> else ?e1)"
  have run2: "(if e_trimmedDisco e2 dk then map_option snd (maybeReconfigWireguardLocked na env now (\<lambda>_. False) e2) else Some e2) = Some e'"
    using run Some by (simp add: noteReceiveActivity_def Let_def e2_def cong: if_cong)
  have eq: "e_recvActivityAt e2 = (e_recvActivityAt e)(dk \<mapsto> now)" "e_sentActivityAt e2 = e_sentActivityAt e" "e_times e2 = e_times e"
    "e_destIPActivityFuncs e2 = e_destIPActivityFuncs e" "e_nextTime e2 = e_nextTime e" "e_trimmedDisco e2 = e_trimmedDisco e"
    "e_lastEngineSigTrim e2 = e_lastEngineSigTrim e" "e_lastCfgFull e2 = e_lastCfgFull e" by (simp_all add: e2_def)
  have m: "maps_inv e2 tD tI = maps_inv e tD tI" "sig_ok env zero e2 tD tI = sig_ok env zero e tD tI" for tD tI
    using Some by (auto simp: maps_inv_def sig_ok_def eq)
  show ?thesis
  proof (cases "e_trimmedDisco e2 dk")
    case True
    with run2 obtain err where "maybeReconfigWireguardLocked na env now (\<lambda>_. False) e2 = Some (err, e')" by auto
    then show ?thesis by (rule maybeReconfig_keeps_inv [OF _ inv h now m])
  next
    case False
    have "idle_disco na env e2 t dk'" if i: "idle_disco na env e t dk'" "dk' \<noteq> dk" for t dk'
    proof -
      from i obtain p where p: "p \<in> set (wc_Peers (e_lastCfgFull e))" "\<not> keeps na env e t p" "disco_of p = dk'"
        unfolding idle_disco_def by blast
      have "isActiveSince e2 dk' ip t = isActiveSince e dk' ip t" for ip
        unfolding isActiveSince_def eq using i(2) by simp
      with p have "\<not> keeps na env e2 t p" by (simp add: keeps_def eq)
      with p show ?thesis unfolding idle_disco_def eq by blast
    qed
    with False inv have "lazy_inv na env zero now e2" unfolding lazy_inv_def m eq by blast
    with False run2 show ?thesis by simp
  qed
qed

text \<open>The state in which \<^verbatim>\<open>Reconfig\<close> asks for a new configuration of the device.\<close>

definition reconfig_state ::
  "'ip netaddr \<Rightarrow> ('ip, 'd, 'h) eng_env \<Rightarrow> 'ip wg_config \<Rightarrow> 'ip router_config \<Rightarrow> 'ip dns_cfg \<Rightarrow> u16 \<Rightarrow> ('ip, 'd, 'h, 'z) engine_scheme \<Rightarrow> ('ip, 'd, 'h, 'z) engine_scheme" where
  "reconfig_state na env cfg rc dg port e =
     e\<lparr>e_localAddrs := rc_LocalAddrs rc, e_lastDNSConfig := Some dg, e_peerSequence := map wp_PublicKey (wc_Peers cfg),
       e_lastEngineSigFull := ee_hashFull env cfg, e_lastRouterSig := ee_hashRouter env rc dg,
       e_dnsOverTailscale := dnsIPsOverTailscale na dg rc, e_lastCfgFull := cfg,
       e_magic := e_magic e @ [SetPrivateKey (wc_PrivateKey cfg), UpdatePeers (map wp_PublicKey (wc_Peers cfg)), SetPreferredPort port]\<rparr>"

lemma Reconfig_changed:
  fixes rnd
  defines "port \<equiv> (\<lambda>e. if rnd then 0 else e_confListenPort e)"
  assumes "ee_hashFull env cfg \<noteq> e_lastEngineSigFull e \<or> ee_hashRouter env rc dg \<noteq> e_lastRouterSig e \<or> port e \<noteq> e_localPort e"
  shows "Reconfig na env now cfg (Some rc) (Some dg) rnd e =
    do { (er, e2) \<leftarrow> maybeReconfigWireguardLocked na env now (disco_changed (e_lastCfgFull e) cfg) (reconfig_state na env cfg rc dg (port e) e);
         if er \<noteq> None then Some (map_option ErrWG er, e2)
         else if ee_hashRouter env rc dg \<noteq> e_lastRouterSig e then Some (reconfig_router env rc dg e2) else Some (None, e2)}"
proof -
  let ?a = "\<lambda>e. e\<lparr>e_localAddrs := rc_LocalAddrs rc, e_lastDNSConfig := Some dg, e_peerSequence := map wp_PublicKey (wc_Peers cfg)\<rparr>"
  let ?b = "\<lambda>e. (?a e)\<lparr>e_lastEngineSigFull := ee_hashFull env cfg, e_lastRouterSig := ee_hashRouter env rc dg\<rparr>"
  have f: "e_lastEngineSigFull (?a e) = e_lastEngineSigFull e" "e_lastRouterSig (?a e) = e_lastRouterSig e"
    "e_confListenPort (?a e) = e_confListenPort e" "e_localPort (?b e) = e_localPort e" "e_lastCfgFull (?b e) = e_lastCfgFull e"
    "e_magic (?b e) = e_magic e" by simp_all
  have n: "\<not> (\<not> ee_hashFull env cfg \<noteq> e_lastEngineSigFull e \<and> \<not> ee_hashRouter env rc dg \<noteq> e_lastRouterSig e \<and>
      (if rnd then 0 else e_confListenPort e) = e_localPort e)" using assms(2) by (simp add: port_def)
  show ?thesis
    unfolding Reconfig_def Let_def bind.bind_lunit f if_not_P [OF n] reconfig_state_def port_def ..
qed

lemma Reconfig_unchanged:
  assumes "ee_hashFull env cfg = e_lastEngineSigFull e" "ee_hashRouter env rc dg = e_lastRouterSig e"
    "(if rnd then 0 else e_confListenPort e) = e_localPort e"
  shows "Reconfig na env now cfg (Some rc) (Some dg) rnd e =
    Some (Some ErrNoChanges, e\<lparr>e_localAddrs := rc_LocalAddrs rc, e_lastDNSConfig := Some dg, e_peerSequence := map wp_PublicKey (wc_Peers cfg)\<rparr>)"
proof -
  let ?a = "\<lambda>e. e\<lparr>e_localAddrs := rc_LocalAddrs rc, e_lastDNSConfig := Some dg, e_peerSequence := map wp_PublicKey (wc_Peers cfg)\<rparr>"
  have f: "e_lastEngineSigFull (?a e) = e_lastEngineSigFull e" "e_lastRouterSig (?a e) = e_lastRouterSig e"
    "e_confListenPort (?a e) = e_confListenPort e" "e_localPort (?a e) = e_localPort e" by simp_all
  have b: "(?a e)\<lparr>e_lastEngineSigFull := e_lastEngineSigFull e, e_lastRouterSig := e_lastRouterSig e\<rparr> = ?a e" by simp
  show ?thesis
    unfolding Reconfig_def Let_def bind.bind_lunit assms(1,2) f b unfolding f assms(3) by simp
qed

lemma Reconfig_inv:
  assumes inv: "lazy_inv na env zero now e" and h: "hash_ok env zero" and now: "lazyPeerIdleThreshold \<le> now"
    and run: "Reconfig na env now cfg routerCfg dnsCfg rnd e = Some (err, e')"
  shows "lazy_inv na env zero now e'"
proof -
  have router: "lazy_inv na env zero now e2" if "reconfig_router env rc dg e1 = (er, e2)" "lazy_inv na env zero now e1" for rc dg e1 er e2
    using that(1) by (intro lazy_inv_more [OF that(2)])
      (auto simp: reconfig_router_def Let_def split: option.splits)
  from run obtain rc dg where cfgs: "routerCfg = Some rc" "dnsCfg = Some dg"
    by (cases routerCfg; cases dnsCfg) (simp_all add: Reconfig_def)
  define port where "port = (if rnd then 0 else e_confListenPort e)"
  define e1 where "e1 = reconfig_state na env cfg rc dg port e"
  have m: "maps_inv e1 tD tI = maps_inv e tD tI" "sig_ok env zero e1 tD tI = sig_ok env zero e tD tI" for tD tI
    by (simp_all add: maps_inv_def sig_ok_def e1_def reconfig_state_def)
  show ?thesis
  proof (cases "ee_hashFull env cfg = e_lastEngineSigFull e \<and> ee_hashRouter env rc dg = e_lastRouterSig e \<and> port = e_localPort e")
    case True
    then have "e' = e\<lparr>e_localAddrs := rc_LocalAddrs rc, e_lastDNSConfig := Some dg, e_peerSequence := map wp_PublicKey (wc_Peers cfg)\<rparr>"
      using run Reconfig_unchanged [of env cfg e rc dg rnd na now] unfolding cfgs port_def by simp
    then show ?thesis by (intro lazy_inv_more [OF inv]) simp_all
  next
    case False
    with run have "do { (er, e2) \<leftarrow> maybeReconfigWireguardLocked na env now (disco_changed (e_lastCfgFull e) cfg) e1;
         if er \<noteq> None then Some (map_option ErrWG er, e2)
         else if ee_hashRouter env rc dg \<noteq> e_lastRouterSig e then Some (reconfig_router env rc dg e2) else Some (None, e2)} = Some (err, e')"
      using Reconfig_changed [of env cfg e rc dg rnd na now] unfolding cfgs port_def e1_def by auto
    then obtain er e2 where mr: "maybeReconfigWireguardLocked na env now (disco_changed (e_lastCfgFull e) cfg) e1 = Some (er, e2)"
      and e': "e' = e2 \<or> (\<exists>x. reconfig_router env rc dg e2 = (x, e'))"
      by (auto split: Option.bind_splits if_splits)
    have "lazy_inv na env zero now e2" by (rule maybeReconfig_keeps_inv [OF mr inv h now m])
    with e' router show ?thesis by blast
  qed
qed

section \<open>Idle peers come back\<close>

text \<open>The engine before its first configuration, and the runs of sends, receives and reconfigurations.\<close>

definition eng_start :: "'h \<Rightarrow> ('ip, 'd, 'h, 'z) engine_scheme \<Rightarrow> bool" where
  "eng_start zero e \<longleftrightarrow> e_lastCfgFull e = zero_config \<and> e_recvActivityAt e = Map.empty \<and> e_sentActivityAt e = Map.empty \<and>
     e_destIPActivityFuncs e = Map.empty \<and> e_trimmedDisco e = (\<lambda>_. False) \<and> e_lastEngineSigTrim e = zero"

inductive eng_reach :: "'ip netaddr \<Rightarrow> ('ip, 'd, 'h) eng_env \<Rightarrow> 'h \<Rightarrow> int \<Rightarrow> ('ip, 'd, 'h, 'z) engine_scheme \<Rightarrow> bool"
  for na env zero where
  start: "eng_start zero e \<Longrightarrow> lazyPeerIdleThreshold \<le> now \<Longrightarrow> eng_reach na env zero now e"
| sent: "eng_reach na env zero now e \<Longrightarrow> now \<le> now' \<Longrightarrow> dest_activity na env now' ip e = Some e' \<Longrightarrow> eng_reach na env zero now' e'"
| received: "eng_reach na env zero now e \<Longrightarrow> now \<le> now' \<Longrightarrow> noteReceiveActivity na env now' dk e = Some e' \<Longrightarrow> eng_reach na env zero now' e'"
| reconfigured: "eng_reach na env zero now e \<Longrightarrow> now \<le> now' \<Longrightarrow> Reconfig na env now' cfg rc dg rnd e = Some (err, e') \<Longrightarrow>
    eng_reach na env zero now' e'"

lemma eng_reach_inv:
  assumes "eng_reach na env zero now e" "hash_ok env zero"
  shows "lazyPeerIdleThreshold \<le> now \<and> lazy_inv na env zero now e"
  using assms(1)
proof induction
  case (start e now)
  then show ?case
    by (simp add: eng_start_def lazy_inv_def maps_inv_def sig_ok_def track_disco_def tracked_ips_def zero_config_def)
next
  case (sent now e now' ip e')
  then show ?case using dest_activity_inv [OF lazy_inv_later [of na env zero now e now'] assms(2) _ sent.hyps(3)] by auto
next
  case (received now e now' dk e')
  then show ?case using noteReceiveActivity_inv [OF lazy_inv_later [of na env zero now e now'] assms(2) _ received.hyps(3)] by auto
next
  case (reconfigured now e now' cfg rc dg rnd err e')
  then show ?case using Reconfig_inv [OF lazy_inv_later [of na env zero now e now'] assms(2) _ reconfigured.hyps(3)] by auto
qed

text \<open>The device answers with the configuration it has, and takes the next one.\<close>

definition device_ready :: "('ip, 'd, 'h) eng_env \<Rightarrow> ('d \<Rightarrow> 'ip dev_view) \<Rightarrow> 'ip wg_config \<Rightarrow> 'd \<Rightarrow> bool" where
  "device_ready env view cfg d \<longleftrightarrow>
     (\<exists>text prev. wd_IpcGetOperation (ee_device env) d = (text, None) \<and> FromUAPI (ee_uapi env) text = Some (Inr prev) \<and> configured prev (view d)) \<and>
     device_accepts (ee_uapi env) (ee_device env) view d \<and> ue_write (ee_uapi env) = (\<lambda>_. None) \<and> length (wc_PrivateKey cfg) = 32 \<and>
     (\<forall>p\<in>set (wc_Peers cfg). text_ok (ee_uapi env) p) \<and> separate (wc_Peers cfg)"

lemma separate_filter: "separate ps \<Longrightarrow> separate (filter P ps)"
  by (auto simp: separate_def distinct_map_filter)

lemma device_ready_reconfig:
  assumes "device_ready env view cfg d"
  shows "\<exists>d'. ReconfigDevice (ee_uapi env) (ee_device env) (cfg\<lparr>wc_Peers := filter P (wc_Peers cfg)\<rparr>) d = Some (d', None) \<and>
    configured (cfg\<lparr>wc_Peers := filter P (wc_Peers cfg)\<rparr>) (view d')"
  using assms unfolding device_ready_def
  by (elim conjE exE) (rule ReconfigDevice_reaches, auto simp: separate_filter)

lemma maybeReconfig_configures:
  assumes maps: "maps_inv e tD tI" and d: "device_ready env view (e_lastCfgFull e) (e_wgdev e)"
    and ne: "trim_sum na env now e \<noteq> e_lastEngineSigTrim e"
  shows "\<exists>e'. maybeReconfigWireguardLocked na env now (\<lambda>_. False) e = Some (None, e') \<and>
    configured (min_config na env now e) (view (e_wgdev e'))"
proof -
  have m: "maps_inv (e\<lparr>e_lastEngineSigTrim := trim_sum na env now e, e_trimmedDisco := idle_disco na env e (now - lazyPeerIdleThreshold)\<rparr>) tD tI"
    using maps by (simp add: maps_inv_def)
  have dev: "e_wgdev (trimmed_state na env now e) = e_wgdev e"
    unfolding trimmed_state_def using updateActivityMaps_spec(5) [OF m] by simp
  from device_ready_reconfig [OF d] obtain d' where d': "configured (min_config na env now e) (view d')"
    "ReconfigDevice (ee_uapi env) (ee_device env) (min_config na env now e) (e_wgdev e) = Some (d', None)"
    unfolding min_config_def by blast
  then have "maybeReconfigWireguardLocked na env now (\<lambda>_. False) e = Some (None, (trimmed_state na env now e)\<lparr>e_wgdev := d'\<rparr>)"
    unfolding maybeReconfig_changed [OF ne] by (simp add: reconfig_dev_def dev)
  with d'(1) show ?thesis by simp
qed

lemma wake_core:
  assumes inv: "maps_inv e tD tI" "sig_ok env zero e tD tI" and h: "hash_ok env zero" and now: "lazyPeerIdleThreshold \<le> now"
    and p: "p \<in> set (wc_Peers (e_lastCfgFull e))" "\<forall>q\<in>set (wc_Peers (e_lastCfgFull e)). disco_of q = disco_of p \<longrightarrow> q = p"
    and t: "e_trimmedDisco e (disco_of p)" and k: "keeps na env e (now - lazyPeerIdleThreshold) p"
    and d: "device_ready env view (e_lastCfgFull e) (e_wgdev e)"
  shows "\<exists>e'. maybeReconfigWireguardLocked na env now (\<lambda>_. False) e = Some (None, e') \<and> \<not> e_trimmedDisco e' (disco_of p) \<and>
    has_peer (view (e_wgdev e')) p"
proof -
  have ni: "\<not> idle_disco na env e (now - lazyPeerIdleThreshold) (disco_of p)" using p k by (auto simp: idle_disco_def)
  have "trim_sum na env now e \<noteq> e_lastEngineSigTrim e"
  proof
    assume "trim_sum na env now e = e_lastEngineSigTrim e"
    then have "maybeReconfigWireguardLocked na env now (\<lambda>_. False) e = Some (None, e)" by (rule maybeReconfig_unchanged)
    from maybeReconfig_inv [OF inv h now this] t ni show False by simp
  qed
  from maybeReconfig_configures [OF inv(1) d this] obtain e'
    where e': "maybeReconfigWireguardLocked na env now (\<lambda>_. False) e = Some (None, e')" "configured (min_config na env now e) (view (e_wgdev e'))"
    by blast
  have "p \<in> set (wc_Peers (min_config na env now e))" using p(1) k by (simp add: min_config_def)
  then have "has_peer (view (e_wgdev e')) p" using e'(2) by (simp add: configured_def)
  with e'(1) maybeReconfig_inv [OF inv h now e'(1)] ni show ?thesis by auto
qed

lemma trimmed_is_idle:
  assumes "lazy_inv na env zero now e" "now \<le> now'" "e_trimmedDisco e (disco_of p)"
    "\<forall>q\<in>set (wc_Peers (e_lastCfgFull e)). disco_of q = disco_of p \<longrightarrow> q = p"
  shows "\<not> keeps na env e (now' - lazyPeerIdleThreshold) p" "p \<in> set (wc_Peers (e_lastCfgFull e))"
proof -
  have "idle_disco na env e (now' - lazyPeerIdleThreshold) (disco_of p)"
    using lazy_inv_later [OF assms(1,2)] assms(3) by (simp add: lazy_inv_def)
  with assms(4) show "\<not> keeps na env e (now' - lazyPeerIdleThreshold) p" "p \<in> set (wc_Peers (e_lastCfgFull e))"
    unfolding idle_disco_def by auto
qed



section \<open>A failed reconfiguration\<close>

lemma trimmed_state_frame:
  "e_lastEngineSigFull (trimmed_state na env now e) = e_lastEngineSigFull e" "e_lastRouterSig (trimmed_state na env now e) = e_lastRouterSig e"
  "e_localAddrs (trimmed_state na env now e) = e_localAddrs e" "e_peerSequence (trimmed_state na env now e) = e_peerSequence e"
  "e_lastDNSConfig (trimmed_state na env now e) = e_lastDNSConfig e"
  "e_confListenPort (trimmed_state na env now e) = e_confListenPort e" "e_localPort (trimmed_state na env now e) = e_localPort e"
  unfolding trimmed_state_def updateActivityMapsLocked_def Let_def
  using grows_track_ips unfolding grows_def same_config_def by (simp_all add: grows_track_ips [unfolded grows_def same_config_def])

text \<open>
  C35. A configuration that the device refused is not tried again. \<^verbatim>\<open>Reconfig\<close> notes the hash of the configuration before it
  configures the device; when that fails, the next call with the same configuration, at the same port, returns \<^verbatim>\<open>ErrNoChanges\<close> and leaves
  the device and the router as they are.
\<close>

theorem failed_reconfig_not_retried:
  assumes "Reconfig na env now cfg (Some rc) (Some dg) rnd e = Some (Some (ErrWG err), e')"
    and "(if rnd then 0 else e_confListenPort e') = e_localPort e'"
  shows "Reconfig na env now' cfg (Some rc) (Some dg) rnd e' = Some (Some ErrNoChanges, e')"
proof -
  let ?port = "if rnd then 0 else e_confListenPort e"
  let ?s = "reconfig_state na env cfg rc dg ?port e"
  have ch: "ee_hashFull env cfg \<noteq> e_lastEngineSigFull e \<or> ee_hashRouter env rc dg \<noteq> e_lastRouterSig e \<or> ?port \<noteq> e_localPort e"
    using assms(1) Reconfig_unchanged [of env cfg e rc dg rnd na now] by fastforce
  have router: "reconfig_router env rc dg e2 \<noteq> (Some (ErrWG x), e3)" for e2 x e3
    by (simp add: reconfig_router_def Let_def split: option.split)
  obtain er where mr: "maybeReconfigWireguardLocked na env now (disco_changed (e_lastCfgFull e) cfg) ?s = Some (er, e')"
    using assms(1) unfolding Reconfig_changed [OF ch] by (auto simp: router split: Option.bind_splits if_splits)
  have "e_lastEngineSigFull e' = ee_hashFull env cfg \<and> e_lastRouterSig e' = ee_hashRouter env rc dg \<and> e_localAddrs e' = rc_LocalAddrs rc \<and>
      e_lastDNSConfig e' = Some dg \<and> e_peerSequence e' = map wp_PublicKey (wc_Peers cfg)"
    using maybeReconfig_state [OF mr]
    by (elim disjE exE conjE) (simp_all add: trimmed_state_frame, simp_all add: reconfig_state_def)
  moreover from this have "e'\<lparr>e_localAddrs := rc_LocalAddrs rc, e_lastDNSConfig := Some dg, e_peerSequence := map wp_PublicKey (wc_Peers cfg)\<rparr> = e'" by simp
  ultimately show ?thesis using Reconfig_unchanged [of env cfg e' rc dg rnd na now'] assms(2) by simp
qed

section \<open>A sample engine\<close>

text \<open>
  The hash of the witnesses is the hashed value itself. The peer of the sample configuration is idle at the start, so that the first
  configuration of the device leaves it out.
\<close>

type_synonym sample_sum = "(addr wg_config \<times> (wgkey \<Rightarrow> bool) \<times> wgkey list \<times> addr list) option"

type_synonym sample_eng = "(addr, addr dev_view, sample_sum) engine"

definition sample_eng_env :: "addr dev_view wg_device \<Rightarrow> (addr, addr dev_view, sample_sum) eng_env" where
  "sample_eng_env w = \<lparr>ee_hashTrim = (\<lambda>c t d i. Some (c, t, d, i)), ee_hashFull = (\<lambda>c. Some (c, (\<lambda>_. False), [], [])),
     ee_hashRouter = (\<lambda>_ _. None), ee_uapi = sample_uapi, ee_device = w, ee_debugTrimWireguardEnv = [], ee_debugTrimWireguard = False,
     ee_TrimWGConfig = [], ee_routerSet = (\<lambda>_. None), ee_dnsSet = (\<lambda>_. None), ee_OS = ''linux'', ee_goos = ''linux''\<rparr>"

definition lazy_cfg :: "addr wg_config" where
  "lazy_cfg = zero_config\<lparr>wc_Peers := [sample_peer]\<rparr>"

definition empty_view :: "addr dev_view" where
  "empty_view = \<lparr>dv_PrivateKey = zero_key, dv_Peers = Map.empty, dv_Routes = Map.empty\<rparr>"

definition sample_engine :: sample_eng where
  "sample_engine = tun.extend sample_tun \<lparr>e_netMap = None, e_lastCfgFull = zero_config, e_lastRouterSig = None, e_lastEngineSigFull = None,
     e_lastEngineSigTrim = None, e_recvActivityAt = Map.empty, e_trimmedDisco = (\<lambda>_. False), e_times = (\<lambda>_. 0), e_nextTime = 0,
     e_sentActivityAt = Map.empty, e_destIPActivityFuncs = Map.empty, e_lastStatusPollTime = 0, e_statusRequests = 0, e_peerSequence = [],
     e_confListenPort = 0, e_localPort = 0, e_localAddrs = [], e_dnsOverTailscale = [], e_magic = [], e_wgdev = empty_view,
     e_routerCfg = None, e_dnsCfg = None,
     e_lastDNSConfig = None, e_routerHealth = None, e_dnsHealth = None\<rparr>"

definition sample_rc :: "addr router_config" where
  "sample_rc = \<lparr>rc_LocalAddrs = [IPPrefix (V4 100 64 0 1) 32], rc_Routes = [IPPrefix (V4 100 64 0 2) 32], rc_LocalRoutes = [], rc_SubnetRoutes = [],
     rc_SNATSubnetRoutes = False, rc_NetfilterMode = 0\<rparr>"

definition sample_dg :: "addr dns_cfg" where
  "sample_dg = \<lparr>dg_DefaultResolvers = [], dg_Routes = [], dg_SearchDomains = [], dg_Hosts = []\<rparr>"

lemma sample_hash_ok: "hash_ok (sample_eng_env w) None"
  by (simp add: hash_ok_def sample_eng_env_def)

lemma sample_start: "eng_start None sample_engine" "e_wgdev sample_engine = empty_view" "e_localPort sample_engine = 0"
    "e_lastEngineSigFull sample_engine = None" "e_lastRouterSig sample_engine = None"
  by (simp_all add: sample_engine_def eng_start_def tun.defs)

lemma sample_sums: "ee_hashFull (sample_eng_env w) cfg = Some (cfg, (\<lambda>_. False), [], [])" "ee_hashRouter (sample_eng_env w) rc dg = None"
  by (simp_all add: sample_eng_env_def)

lemma sample_ready:
  assumes "configured zero_config v" "wc_Peers cfg = [sample_peer]" "wc_PrivateKey cfg = zero_key"
  shows "device_ready (sample_eng_env sample_device) id cfg v"
proof -
  have "wd_IpcGetOperation sample_device v = ([], None)" "FromUAPI sample_uapi [] = Some (Inr zero_config)"
    by (simp_all add: sample_device_def FromUAPI_def scan_lines_def)
  then show ?thesis
    using sample_device_accepts sample_text_ok assms
    by (auto simp: device_ready_def sample_eng_env_def sample_cfg_def zero_key_def)
qed

text \<open>After the first configuration the peer is trimmed, and the device has no peer.\<close>

lemma sample_reached:
  "\<exists>e :: sample_eng. eng_reach addr_netaddr (sample_eng_env sample_device) None lazyPeerIdleThreshold e \<and> e_trimmedDisco e (disco_of sample_peer) \<and>
     e_lastCfgFull e = lazy_cfg \<and> configured zero_config (e_wgdev e)"
proof -
  let ?env = "sample_eng_env sample_device" and ?now = lazyPeerIdleThreshold
  define s0 where "s0 = reconfig_state addr_netaddr ?env lazy_cfg sample_rc sample_dg 0 sample_engine"
  have dc: "disco_changed (e_lastCfgFull sample_engine) lazy_cfg = (\<lambda>_. False)"
    using sample_start(1) by (simp add: eng_start_def disco_changed_def zero_config_def lazy_cfg_def)
  have s: "maps_inv s0 [] []" "e_lastCfgFull s0 = lazy_cfg" "e_wgdev s0 = empty_view" "e_lastEngineSigTrim s0 = None"
    "e_sentActivityAt s0 = Map.empty" "e_recvActivityAt s0 = Map.empty" "sig_ok ?env None s0 [] []"
    using sample_start by (simp_all add: s0_def reconfig_state_def eng_start_def maps_inv_def sig_ok_def)
  have na: "isActiveSince s0 dk ip 0 = False" for dk ip by (simp add: isActiveSince_def s)
  have "isTrimmablePeer addr_netaddr ?env sample_peer n" for n
    by (simp add: isTrimmablePeer_def forceFullWireguardConfig_def sample_eng_env_def sample_peer_def DiscoKey_IsZero_def zero_key_def) code_simp
  then have k: "\<not> keeps addr_netaddr ?env s0 0 sample_peer" by (simp add: keeps_def na)
  then have "min_config addr_netaddr ?env ?now s0 = zero_config" "idle_disco addr_netaddr ?env s0 0 (disco_of sample_peer)"
    by (simp_all add: min_config_def idle_disco_def s lazy_cfg_def zero_config_def)
  note m = this
  have v0: "configured zero_config empty_view" by (simp add: configured_def zero_config_def empty_view_def)
  have ready: "device_ready ?env id (e_lastCfgFull s0) (e_wgdev s0)"
    unfolding s by (rule sample_ready [OF v0]) (simp_all add: lazy_cfg_def zero_config_def)
  have "trim_sum addr_netaddr ?env ?now s0 \<noteq> e_lastEngineSigTrim s0" by (simp add: trim_sum_def s sample_eng_env_def)
  from maybeReconfig_configures [OF s(1) ready this] m(1) obtain e
    where e: "maybeReconfigWireguardLocked addr_netaddr ?env ?now (\<lambda>_. False) s0 = Some (None, e)" "configured zero_config (e_wgdev e)"
    by auto
  have "Reconfig addr_netaddr ?env ?now lazy_cfg (Some sample_rc) (Some sample_dg) True sample_engine = Some (None, e)"
    using e(1) by (subst Reconfig_changed) (simp_all add: sample_start(3-5) dc s0_def sample_sums)
  then have "eng_reach addr_netaddr ?env None ?now e"
    using eng_reach.reconfigured [OF eng_reach.start [OF sample_start(1) order_refl] order_refl] by blast
  with e(2) maybeReconfig_inv [OF s(1,7) sample_hash_ok order_refl e(1)] m(2) show ?thesis by (auto simp: s)
qed



text \<open>A device that refuses every configuration.\<close>

definition refusing_device :: "addr dev_view wg_device" where
  "refusing_device = \<lparr>wd_IpcGetOperation = (\<lambda>_. ([], None)), wd_IpcSetOperation = (\<lambda>s v. (v, Some ''refused''))\<rparr>"

lemma refusing_reconfig:
  "\<exists>e'. Reconfig addr_netaddr (sample_eng_env refusing_device) 0 zero_config (Some sample_rc) (Some sample_dg) True sample_engine =
     Some (Some (ErrWG (ErrDeviceSet ''refused'')), e') \<and> e_localPort e' = 0"
proof -
  let ?env = "sample_eng_env refusing_device"
  define s0 where "s0 = reconfig_state addr_netaddr ?env zero_config sample_rc sample_dg 0 sample_engine"
  have dc: "disco_changed (e_lastCfgFull sample_engine) zero_config = (\<lambda>_. False)"
    by (simp add: disco_changed_def zero_config_def)
  have s: "e_lastEngineSigTrim s0 = None" "e_localPort s0 = 0"
    using sample_start by (simp_all add: s0_def reconfig_state_def eng_start_def)
  have ne: "trim_sum addr_netaddr ?env 0 s0 \<noteq> e_lastEngineSigTrim s0" by (simp add: trim_sum_def s sample_eng_env_def)
  have "FromUAPI sample_uapi [] = Some (Inr zero_config)" by (simp add: FromUAPI_def scan_lines_def)
  then have r: "ReconfigDevice sample_uapi refusing_device cfg v = Some (v, Some (ErrDeviceSet ''refused''))" for cfg v
    by (simp add: ReconfigDevice_def DeviceConfig_def refusing_device_def split: prod.split)
  let ?t = "trimmed_state addr_netaddr ?env 0 s0"
  have "maybeReconfigWireguardLocked addr_netaddr ?env 0 (\<lambda>_. False) s0 = Some (Some (ErrDeviceSet ''refused''), ?t)"
    unfolding maybeReconfig_changed [OF ne] by (simp add: reconfig_dev_def sample_eng_env_def r)
  then have "Reconfig addr_netaddr ?env 0 zero_config (Some sample_rc) (Some sample_dg) True sample_engine =
      Some (Some (ErrWG (ErrDeviceSet ''refused'')), ?t)"
    by (subst Reconfig_changed) (simp_all add: sample_start(3-5) dc s0_def sample_sums)
  then show ?thesis using s(2) trimmed_state_frame(7) by metis
qed

theorem failed_reconfig_not_retried_witness:
  "\<exists>e'. Reconfig addr_netaddr (sample_eng_env refusing_device) 0 zero_config (Some sample_rc) (Some sample_dg) True sample_engine =
     Some (Some (ErrWG (ErrDeviceSet ''refused'')), e') \<and>
     Reconfig addr_netaddr (sample_eng_env refusing_device) 5 zero_config (Some sample_rc) (Some sample_dg) True e' = Some (Some ErrNoChanges, e')"
proof -
  obtain e' where e': "Reconfig addr_netaddr (sample_eng_env refusing_device) 0 zero_config (Some sample_rc) (Some sample_dg) True sample_engine =
     Some (Some (ErrWG (ErrDeviceSet ''refused'')), e')" "e_localPort e' = 0" using refusing_reconfig by blast
  with failed_reconfig_not_retried [OF e'(1), of 5] show ?thesis by auto
qed

end
