(* ===== verification/Enginepkt.thy ===== *)
theory Enginepkt
  imports Engine
begin

text \<open>
  The packets that the userspace engine handles itself, the pings it sends, and the lookup of the peer that is
  responsible for an address: \<^verbatim>\<open>echoRespondToAll\<close>, \<^verbatim>\<open>handleLocalPackets\<close>, \<^verbatim>\<open>handleDNS\<close>, \<^verbatim>\<open>pollResolver\<close>, \<^verbatim>\<open>Ping\<close>,
  \<^verbatim>\<open>peerForIP\<close> and their callees in \<^verbatim>\<open>wgengine/userspace.go\<close>.

  A timer of \<^verbatim>\<open>time.AfterFunc\<close> is a number; the armed timers are a map from numbers to a deadline and what the timer does.
  The calls of the callback of \<^verbatim>\<open>Ping\<close> are recorded in the order in which they are made.
\<close>

section \<open>State\<close>

datatype 'ip timer_act = OpenTimeout "'ip tuple" | PongExpire bytes

datatype pf_error = ErrNoNetworkMap | ErrExitNodeNotEnabled | ErrNotUsingRoute string string

datatype ping_error = ErrPeer pf_error | ErrNoMatchingPeer | ErrNoNetmap | ErrNoSelfAddress | ErrNoSelfFamily

record 'ip ping_result =
  pr_IP :: 'ip
  pr_NodeIP :: "'ip option"
  pr_NodeName :: string
  pr_Err :: "ping_error option"
  pr_Latency :: int
  pr_PeerAPIPort :: u16

text \<open>What the closure that waits for a pong holds.\<close>

record 'ip pong_cb =
  pc_timer :: nat
  pc_t0 :: int
  pc_ip :: 'ip
  pc_peer :: "'ip node"
  pc_res :: "'ip ping_result"

record pendingOpenFlow =
  po_timer :: nat
  po_problem :: u8

record ('ip, 'd, 'h) uengine = "('ip, 'd, 'h) engine" +
  u_dnsClosed :: bool
  u_dnsActive :: "(bytes \<times> 'ip ipport) list"
  u_pongCallback :: "bytes \<rightharpoonup> 'ip pong_cb"
  u_tsIPByIPPort :: "'ip ipport \<rightharpoonup> 'ip"
  u_pendOpen :: "'ip tuple \<rightharpoonup> pendingOpenFlow"
  u_timers :: "nat \<rightharpoonup> int \<times> 'ip timer_act"
  u_nextTimer :: nat
  u_results :: "'ip ping_result list"
  u_discoPings :: "('ip node \<times> 'ip ping_result) list"
  u_closing :: bool
  u_endpoints :: "('ip ipport \<times> int) list"

definition AfterFunc :: "int \<Rightarrow> 'ip timer_act \<Rightarrow> ('ip, 'd, 'h, 'z) uengine_scheme \<Rightarrow> nat \<times> ('ip, 'd, 'h, 'z) uengine_scheme" where
  "AfterFunc deadline act e =
     (u_nextTimer e, e\<lparr>u_timers := (u_timers e)(u_nextTimer e \<mapsto> (deadline, act)), u_nextTimer := Suc (u_nextTimer e)\<rparr>)"

definition Stop :: "nat \<Rightarrow> ('ip, 'd, 'h, 'z) uengine_scheme \<Rightarrow> ('ip, 'd, 'h, 'z) uengine_scheme" where
  "Stop timer e = e\<lparr>u_timers := (u_timers e)(timer := None)\<rparr>"

section \<open>Packets the engine handles\<close>

definition magicDNSPort :: u16 where "magicDNSPort = 53"

definition magicDNSIP :: "'ip netaddr \<Rightarrow> 'ip" where "magicDNSIP na = na_IPv4 na 100 100 100 100"

definition echoRespondToAll :: "'ip netaddr \<Rightarrow> tun_env \<Rightarrow> ('ip, ('ip, 'z) tun_scheme) FilterFunc" where
  "echoRespondToAll na c p t =
     (if IsEchoRequest p
      then do { hdr \<leftarrow> ICMP4Header_of p;
                let hdr = ToResponse_ICMP4 hdr;
                pl \<leftarrow> Payload p;
                outp \<leftarrow> Generate (len_ICMP4 hdr) (marshal_ICMP4 na hdr) pl;
                let (_, t) = InjectOutbound c outp t;
                Some (Accept, t) }
      else Some (Accept, t))"

text \<open>The resolver's queue: the queries that goroutines are working on.\<close>

definition maxActiveQueries :: "string \<Rightarrow> nat" where
  "maxActiveQueries goos = (if goos = ''ios'' then 64 else 256)"

datatype dns_error = ErrClosed | errFullQueue

definition EnqueueRequest :: "string \<Rightarrow> bytes \<Rightarrow> 'ip ipport \<Rightarrow> ('ip, 'd, 'h, 'z) uengine_scheme \<Rightarrow> dns_error option \<times> ('ip, 'd, 'h, 'z) uengine_scheme" where
  "EnqueueRequest goos bs from e =
     (if u_dnsClosed e then (Some ErrClosed, e)
      else if length (u_dnsActive e) + 1 > maxActiveQueries goos then (Some errFullQueue, e)
      else (None, e\<lparr>u_dnsActive := u_dnsActive e @ [(bs, from)]\<rparr>))"

definition handleDNS :: "'ip netaddr \<Rightarrow> string \<Rightarrow> ('ip, ('ip, 'd, 'h, 'z) uengine_scheme) FilterFunc" where
  "handleDNS na goos p e =
     (if ipp_IP (q_Dst p) = magicDNSIP na \<and> ipp_Port (q_Dst p) = magicDNSPort \<and> IPProto p = UDP
      then do { pl \<leftarrow> Payload p;
                let (_, e) = EnqueueRequest goos pl (q_Src p) e;
                Some (Drop, e) }
      else Some (Accept, e))"

text \<open>\<^verbatim>\<open>isLocalAddr\<close> is \<^verbatim>\<open>NewContainsIPFunc\<close> of the local addresses, from the start on.\<close>

definition handleLocalPackets :: "'ip netaddr \<Rightarrow> tun_env \<Rightarrow> string \<Rightarrow> ('ip, ('ip, 'd, 'h, 'z) uengine_scheme) FilterFunc" where
  "handleLocalPackets na c goos p e =
     do { (verdict, e) \<leftarrow> handleDNS na goos p e;
          if verdict = Drop then Some (Drop, e)
          else if (goos = ''darwin'' \<or> goos = ''ios'') \<and> NewContainsIPFunc na (e_localAddrs e) (ipp_IP (q_Dst p))
          then do { (_, e) \<leftarrow> InjectInboundCopy c (Buffer p) e;
                    Some (Drop, e) }
          else Some (Accept, e) }"

text \<open>One response of the resolver; the error of \<^verbatim>\<open>Marshal\<close> and that of \<^verbatim>\<open>InjectInboundDirect\<close> are ignored.\<close>

definition pollResolver_response :: "'ip netaddr \<Rightarrow> tun_env \<Rightarrow> bytes \<Rightarrow> 'ip ipport \<Rightarrow> ('ip, 'z) tun_scheme \<Rightarrow> ('ip, 'z) tun_scheme option" where
  "pollResolver_response na c bs to t =
     do { let h = \<lparr>u4_IP4Header = \<lparr>h4_IPProto = Unknown, h4_IPID = 0, h4_Src = magicDNSIP na, h4_Dst = ipp_IP to\<rparr>,
                   u4_SrcPort = magicDNSPort, u4_DstPort = ipp_Port to\<rparr>;
          let hlen = len_UDP4 h;
          let ofs = PacketStartOffset c;
          let buf = replicate (ofs + hlen + length bs) 0;
          buf \<leftarrow> copy_at buf (ofs + hlen) (length buf) bs;
          sub \<leftarrow> slice_from buf ofs;
          (_, sub) \<leftarrow> marshal_UDP4 na h sub;
          (_, t) \<leftarrow> InjectInboundDirect c (take ofs buf @ sub) ofs t;
          Some t }"

text \<open>A query leaves the queue when its goroutine ends, with its response or without one.\<close>

definition query_done :: "nat \<Rightarrow> ('ip, 'd, 'h, 'z) uengine_scheme \<Rightarrow> ('ip, 'd, 'h, 'z) uengine_scheme" where
  "query_done i e = e\<lparr>u_dnsActive := take i (u_dnsActive e) @ drop (Suc i) (u_dnsActive e)\<rparr>"

section \<open>The peer for an address\<close>

definition zero_prefix :: "'ip netaddr \<Rightarrow> 'ip ipprefix" where
  "zero_prefix na = IPPrefix (na_zero na) 0"

text \<open>The loop over the routes of a peer, for \<^verbatim>\<open>bestInNM\<close> and for \<^verbatim>\<open>bestKey\<close>.\<close>

definition scan_cidrs :: "'ip netaddr \<Rightarrow> 'ip \<Rightarrow> 'a \<Rightarrow> 'ip ipprefix list \<Rightarrow> 'ip ipprefix \<times> 'a \<Rightarrow> 'ip ipprefix \<times> 'a" where
  "scan_cidrs na ip x cidrs st =
     fold (\<lambda>cidr (best, y).
        if \<not> na_Contains na cidr ip then (best, y)
        else if best = zero_prefix na \<or> pfx_Bits cidr > pfx_Bits best then (cidr, x) else (best, y)) cidrs st"

fun scan_netmap :: "'ip netaddr \<Rightarrow> 'ip \<Rightarrow> 'ip node list \<Rightarrow> 'ip ipprefix \<times> 'ip node option \<Rightarrow> 'ip node + 'ip ipprefix \<times> 'ip node option" where
  "scan_netmap na ip [] st = Inr st"
| "scan_netmap na ip (p # ps) st =
     (if list_ex (\<lambda>a. pfx_IP a = ip \<and> na_IsSingleIP na a \<and> IsTailscaleIP na ip) (elems (n_Addresses p)) then Inl p
      else scan_netmap na ip ps (scan_cidrs na ip (Some p) (elems (n_AllowedIPs p)) st))"

definition scan_config :: "'ip netaddr \<Rightarrow> 'ip \<Rightarrow> 'ip wg_peer list \<Rightarrow> 'ip ipprefix \<times> wgkey" where
  "scan_config na ip ps = fold (\<lambda>p. scan_cidrs na ip (wp_PublicKey p) (wp_AllowedIPs p)) ps (zero_prefix na, zero_key)"

text \<open>\<open>show_pfx\<close> is \<^verbatim>\<open>IPPrefix.String\<close>. A nil node is \<open>None\<close>.\<close>

definition peerForIP :: "'ip netaddr \<Rightarrow> ('ip ipprefix \<Rightarrow> string) \<Rightarrow> 'ip \<Rightarrow> ('ip, 'd, 'h, 'z) engine_scheme \<Rightarrow> pf_error + 'ip node option" where
  "peerForIP na show_pfx ip e =
     (case e_netMap e of
        None \<Rightarrow> Inl ErrNoNetworkMap
      | Some nm \<Rightarrow>
          (case scan_netmap na ip (nm_Peers nm) (zero_prefix na, None) of
             Inl p \<Rightarrow> Inr (Some p)
           | Inr (bestInNMPrefix, bestInNM) \<Rightarrow>
               (let (_, bestKey) = scan_config na ip (wc_Peers (e_lastCfgFull e))
                in case (if NodeKey_IsZero bestKey then None else List.find (\<lambda>p. n_Key p = bestKey) (nm_Peers nm)) of
                     Some p \<Rightarrow> Inr (Some p)
                   | None \<Rightarrow>
                       (case bestInNM of
                          None \<Rightarrow> Inr None
                        | Some n \<Rightarrow>
                            if pfx_Bits bestInNMPrefix = 0 then Inl ErrExitNodeNotEnabled
                            else Inl (ErrNotUsingRoute (n_ComputedNameWithHost n) (show_pfx bestInNMPrefix))))))"

section \<open>Pings\<close>

definition mySelfIPMatchingFamily :: "'ip netaddr \<Rightarrow> 'ip \<Rightarrow> ('ip, 'd, 'h, 'z) engine_scheme \<Rightarrow> ping_error + 'ip" where
  "mySelfIPMatchingFamily na dst e =
     (case e_netMap e of
        None \<Rightarrow> Inl ErrNoNetmap
      | Some nm \<Rightarrow>
          (case List.find (\<lambda>a. na_IsSingleIP na a \<and> na_BitLen na (pfx_IP a) = na_BitLen na dst) (elems (nm_Addresses nm)) of
             Some a \<Rightarrow> Inr (pfx_IP a)
           | None \<Rightarrow> if elems (nm_Addresses nm) = [] then Inl ErrNoSelfAddress else Inl ErrNoSelfFamily))"

definition setTSMPPongCallback :: "bytes \<Rightarrow> 'ip pong_cb option \<Rightarrow> ('ip, 'd, 'h, 'z) uengine_scheme \<Rightarrow> ('ip, 'd, 'h, 'z) uengine_scheme" where
  "setTSMPPongCallback data cb e = e\<lparr>u_pongCallback := (u_pongCallback e)(data := cb)\<rparr>"

text \<open>\<open>data\<close> are the eight random bytes.\<close>

definition sendTSMPPing ::
  "'ip netaddr \<Rightarrow> tun_env \<Rightarrow> int \<Rightarrow> bytes \<Rightarrow> 'ip \<Rightarrow> 'ip node \<Rightarrow> 'ip ping_result \<Rightarrow> ('ip, 'd, 'h, 'z) uengine_scheme \<Rightarrow>
   ('ip, 'd, 'h, 'z) uengine_scheme option" where
  "sendTSMPPing na c now data ip peer res e =
     (case mySelfIPMatchingFamily na ip e of
        Inl err \<Rightarrow> Some (e\<lparr>u_results := u_results e @ [res\<lparr>pr_Err := Some err\<rparr>]\<rparr>)
      | Inr srcIP \<Rightarrow>
          do { let (expireTimer, e) = AfterFunc (now + 10 * 1000000000) (PongExpire data) e;
               let e = setTSMPPongCallback data
                 (Some \<lparr>pc_timer = expireTimer, pc_t0 = now, pc_ip = ip, pc_peer = peer, pc_res = res\<rparr>) e;
               let tsmpPayload = [TSMPTypePing] @ data;
               tsmpPing \<leftarrow>
                 (if na_Is4 na srcIP
                  then let iph = \<lparr>h4_IPProto = TSMP, h4_IPID = 0, h4_Src = srcIP, h4_Dst = ip\<rparr>
                       in Generate (len_IP4 iph) (marshal_IP4 na iph) tsmpPayload
                  else let iph = \<lparr>h6_IPProto = TSMP, h6_IPID = 0, h6_Src = srcIP, h6_Dst = ip\<rparr>
                       in Generate (len_IP6 iph) (marshal_IP6 na iph) tsmpPayload);
               Some (snd (InjectOutbound c tsmpPing e)) })"

definition ping_result0 :: "'ip \<Rightarrow> 'ip ping_result" where
  "ping_result0 ip = \<lparr>pr_IP = ip, pr_NodeIP = None, pr_NodeName = [], pr_Err = None, pr_Latency = 0, pr_PeerAPIPort = 0\<rparr>"

definition Ping ::
  "'ip netaddr \<Rightarrow> tun_env \<Rightarrow> ('ip ipprefix \<Rightarrow> string) \<Rightarrow> int \<Rightarrow> bytes \<Rightarrow> 'ip \<Rightarrow> bool \<Rightarrow> ('ip, 'd, 'h, 'z) uengine_scheme \<Rightarrow>
   ('ip, 'd, 'h, 'z) uengine_scheme option" where
  "Ping na c show_pfx now data ip useTSMP e =
     (let res = ping_result0 ip
      in case peerForIP na show_pfx ip e of
           Inl err \<Rightarrow> Some (e\<lparr>u_results := u_results e @ [res\<lparr>pr_Err := Some (ErrPeer err)\<rparr>]\<rparr>)
         | Inr None \<Rightarrow> Some (e\<lparr>u_results := u_results e @ [res\<lparr>pr_Err := Some ErrNoMatchingPeer\<rparr>]\<rparr>)
         | Inr (Some peer) \<Rightarrow>
             if useTSMP then sendTSMPPing na c now data ip peer res e
             else Some (e\<lparr>u_discoPings := u_discoPings e @ [(peer, res)]\<rparr>))"

text \<open>The function of \<^verbatim>\<open>OnTSMPPongReceived\<close>: the callback stops its timer and reports the result.\<close>

definition onTSMPPong :: "int \<Rightarrow> unit pong \<Rightarrow> ('ip, 'd, 'h, 'z) uengine_scheme \<Rightarrow> ('ip, 'd, 'h, 'z) uengine_scheme" where
  "onTSMPPong now pong e =
     (case u_pongCallback e (pong_Data pong) of
        None \<Rightarrow> e
      | Some cb \<Rightarrow>
          (let e = Stop (pc_timer cb) e;
               res = (pc_res cb)\<lparr>pr_Latency := now - pc_t0 cb, pr_NodeIP := Some (pc_ip cb), pr_NodeName := n_ComputedName (pc_peer cb),
                                  pr_PeerAPIPort := pong_PeerAPIPort pong\<rparr>
           in e\<lparr>u_results := u_results e @ [res]\<rparr>))"

section \<open>Identities\<close>

definition RegisterIPPortIdentity :: "'ip ipport \<Rightarrow> 'ip \<Rightarrow> ('ip, 'd, 'h, 'z) uengine_scheme \<Rightarrow> ('ip, 'd, 'h, 'z) uengine_scheme" where
  "RegisterIPPortIdentity ipport tsIP e = e\<lparr>u_tsIPByIPPort := (u_tsIPByIPPort e)(ipport \<mapsto> tsIP)\<rparr>"

definition UnregisterIPPortIdentity :: "'ip ipport \<Rightarrow> ('ip, 'd, 'h, 'z) uengine_scheme \<Rightarrow> ('ip, 'd, 'h, 'z) uengine_scheme" where
  "UnregisterIPPortIdentity ipport e = e\<lparr>u_tsIPByIPPort := (u_tsIPByIPPort e)(ipport := None)\<rparr>"

definition whoIsSleeps :: "int list" where
  "whoIsSleeps = [0, 10 * 1000000, 20 * 1000000, 50 * 1000000, 100 * 1000000]"

text \<open>
  \<open>eng_at t\<close> is the engine at the time \<open>t\<close>: other goroutines may register an identity while \<^verbatim>\<open>WhoIsIPPort\<close> sleeps.
\<close>

fun whois_loop :: "(int \<Rightarrow> ('ip, 'd, 'h, 'z) uengine_scheme) \<Rightarrow> int list \<Rightarrow> int \<Rightarrow> 'ip ipport \<Rightarrow> 'ip option" where
  "whois_loop eng_at [] t ipport = None"
| "whois_loop eng_at (d # ds) t ipport =
     (case u_tsIPByIPPort (eng_at (t + d)) ipport of
        Some tsIP \<Rightarrow> Some tsIP
      | None \<Rightarrow> whois_loop eng_at ds (t + d) ipport)"

definition WhoIsIPPort :: "(int \<Rightarrow> ('ip, 'd, 'h, 'z) uengine_scheme) \<Rightarrow> int \<Rightarrow> 'ip ipport \<Rightarrow> 'ip option" where
  "WhoIsIPPort eng_at t ipport = whois_loop eng_at whoIsSleeps t ipport"

section \<open>The peer for an address is the one the device routes to\<close>

text \<open>The two loops together are one loop over the pairs of a route and what is noted for it.\<close>

definition pick :: "'ip netaddr \<Rightarrow> 'ip \<Rightarrow> 'ip ipprefix \<times> 'a \<Rightarrow> 'ip ipprefix \<times> 'a \<Rightarrow> 'ip ipprefix \<times> 'a" where
  "pick na ip r st = (if \<not> na_Contains na (fst r) ip then st
     else if fst st = zero_prefix na \<or> pfx_Bits (fst r) > pfx_Bits (fst st) then r else st)"

lemma scan_cidrs_pick: "scan_cidrs na ip x cidrs st = fold (pick na ip) (map (\<lambda>c. (c, x)) cidrs) st"
  unfolding scan_cidrs_def by (induction cidrs arbitrary: st) (auto simp: pick_def split: prod.split)

lemma scan_config_pick:
  "scan_config na ip ps = fold (pick na ip) (concat (map (\<lambda>p. map (\<lambda>c. (c, wp_PublicKey p)) (wp_AllowedIPs p)) ps)) (zero_prefix na, zero_key)"
proof -
  have "fold (\<lambda>p. scan_cidrs na ip (wp_PublicKey p) (wp_AllowedIPs p)) ps st =
      fold (pick na ip) (concat (map (\<lambda>p. map (\<lambda>c. (c, wp_PublicKey p)) (wp_AllowedIPs p)) ps)) st" for st
    by (induction ps arbitrary: st) (simp_all add: scan_cidrs_pick)
  then show ?thesis by (simp add: scan_config_def)
qed

definition longest :: "'ip netaddr \<Rightarrow> 'ip \<Rightarrow> ('ip ipprefix \<times> 'a) set \<Rightarrow> 'ip ipprefix \<times> 'a \<Rightarrow> bool" where
  "longest na ip R r \<longleftrightarrow> r \<in> R \<and> na_Contains na (fst r) ip \<and>
     (\<forall>r'\<in>R. na_Contains na (fst r') ip \<longrightarrow> pfx_Bits (fst r') \<le> pfx_Bits (fst r))"

lemma fold_pick:
  assumes "\<not> na_Contains na (zero_prefix na) ip" "longest na ip R st"
  shows "longest na ip (R \<union> set rs) (fold (pick na ip) rs st)"
  using assms(2)
proof (induction rs arbitrary: st R)
  case (Cons r rs)
  have "fst st \<noteq> zero_prefix na" using Cons.prems assms(1) by (auto simp: longest_def)
  then have "longest na ip (insert r R) (pick na ip r st)"
    using Cons.prems by (auto simp: longest_def pick_def)
  from Cons.IH [OF this] show ?case by simp
qed simp

lemma fold_pick_start:
  assumes "\<not> na_Contains na (zero_prefix na) ip"
  shows "if \<exists>r\<in>set rs. na_Contains na (fst r) ip then longest na ip (set rs) (fold (pick na ip) rs (zero_prefix na, x))
    else fold (pick na ip) rs (zero_prefix na, x) = (zero_prefix na, x)"
proof (induction rs)
  case (Cons r rs)
  show ?case
  proof (cases "na_Contains na (fst r) ip")
    case True
    then have "longest na ip {r} (pick na ip r (zero_prefix na, x))" by (simp add: pick_def longest_def)
    from fold_pick [OF assms this, of rs] True show ?thesis by simp
  next
    case False
    let ?f = "fold (pick na ip) rs (zero_prefix na, x)"
    have f: "fold (pick na ip) (r # rs) (zero_prefix na, x) = ?f" using False by (simp add: pick_def)
    have "longest na ip (set (r # rs)) ?f = longest na ip (set rs) ?f" if "longest na ip (set rs) ?f"
      using that False by (simp add: longest_def)
    with Cons.IH False show ?thesis unfolding f by simp
  qed
qed simp

lemma scan_config_longest:
  fixes ps :: "'ip wg_peer list"
  assumes "\<not> na_Contains na (zero_prefix na) ip"
  defines "R \<equiv> {(c, wp_PublicKey p) |c p. p \<in> set ps \<and> c \<in> set (wp_AllowedIPs p)}"
  shows "if \<exists>r\<in>R. na_Contains na (fst r) ip then longest na ip R (scan_config na ip ps) else scan_config na ip ps = (zero_prefix na, zero_key)"
proof -
  have R: "R = set (concat (map (\<lambda>p. map (\<lambda>c. (c, wp_PublicKey p)) (wp_AllowedIPs p)) ps))" by (auto simp: R_def)
  show ?thesis unfolding scan_config_pick R by (rule fold_pick_start [OF assms(1)])
qed

text \<open>The routes of a configured device are those of the configuration.\<close>

lemma configured_routes:
  assumes "configured cfg v"
  shows "dv_Routes v c = Some k \<longleftrightarrow> (\<exists>p\<in>set (wc_Peers cfg). wp_PublicKey p = k \<and> c \<in> set (wp_AllowedIPs p))"
proof
  assume r: "dv_Routes v c = Some k"
  then have "k \<in> dom (dv_Peers v)" using assms ranI [of "dv_Routes v"] unfolding configured_def by blast
  then obtain p where "p \<in> set (wc_Peers cfg)" "wp_PublicKey p = k" using assms by (auto simp: configured_def)
  with assms r show "\<exists>p\<in>set (wc_Peers cfg). wp_PublicKey p = k \<and> c \<in> set (wp_AllowedIPs p)"
    by (auto simp: configured_def has_peer_def)
next
  assume "\<exists>p\<in>set (wc_Peers cfg). wp_PublicKey p = k \<and> c \<in> set (wp_AllowedIPs p)"
  with assms show "dv_Routes v c = Some k" by (auto simp: configured_def has_peer_def)
qed

text \<open>Where the device sends a packet to \<open>ip\<close>: the longest of its routes that has \<open>ip\<close>.\<close>

definition routed_to :: "'ip netaddr \<Rightarrow> 'ip dev_view \<Rightarrow> 'ip \<Rightarrow> wgkey \<Rightarrow> bool" where
  "routed_to na v ip k \<longleftrightarrow> (\<exists>c. dv_Routes v c = Some k \<and> na_Contains na c ip \<and>
     (\<forall>c' k'. dv_Routes v c' = Some k' \<and> na_Contains na c' ip \<longrightarrow> pfx_Bits c' \<le> pfx_Bits c))"

lemma scan_netmap_own:
  "scan_netmap na ip ps st = Inl p \<Longrightarrow>
   p \<in> set ps \<and> (\<exists>a\<in>set (elems (n_Addresses p)). pfx_IP a = ip \<and> na_IsSingleIP na a) \<and> IsTailscaleIP na ip"
  by (induction ps arbitrary: st) (auto simp: list_ex_iff split: if_splits)

lemma peerForIP_routes:
  assumes "e_netMap e = Some nm" and "configured (e_lastCfgFull e) v" and "\<not> na_Contains na (zero_prefix na) ip"
    and "\<not> (IsTailscaleIP na ip \<and> (\<exists>p\<in>set (nm_Peers nm). \<exists>a\<in>set (elems (n_Addresses p)). pfx_IP a = ip \<and> na_IsSingleIP na a))"
    and "\<forall>p\<in>set (wc_Peers (e_lastCfgFull e)). \<not> NodeKey_IsZero (wp_PublicKey p) \<and> wp_PublicKey p \<in> n_Key ` set (nm_Peers nm)"
  shows "(\<exists>n. peerForIP na show_pfx ip e = Inr (Some n)) \<longleftrightarrow> (\<exists>c k. dv_Routes v c = Some k \<and> na_Contains na c ip)"
    and "peerForIP na show_pfx ip e = Inr (Some n) \<Longrightarrow> n \<in> set (nm_Peers nm) \<and> routed_to na v ip (n_Key n)"
proof -
  let ?ps = "wc_Peers (e_lastCfgFull e)"
  define R where "R = {(c, wp_PublicKey p) |c p. p \<in> set ?ps \<and> c \<in> set (wp_AllowedIPs p)}"
  have R: "(c, k) \<in> R \<longleftrightarrow> dv_Routes v c = Some k" for c k unfolding R_def configured_routes [OF assms(2)] by auto
  then have any: "(\<exists>r\<in>R. na_Contains na (fst r) ip) \<longleftrightarrow> (\<exists>c k. dv_Routes v c = Some k \<and> na_Contains na c ip)"
    by (simp add: Bex_def split_paired_Ex)
  obtain st where st: "scan_netmap na ip (nm_Peers nm) (zero_prefix na, None) = Inr st"
    using assms(4) scan_netmap_own [of na ip "nm_Peers nm" "(zero_prefix na, None)"]
    by (cases "scan_netmap na ip (nm_Peers nm) (zero_prefix na, None)") blast+
  note l = scan_config_longest [OF assms(3), of ?ps, folded R_def]
  have none: "\<nexists>n. peerForIP na show_pfx ip e = Inr (Some n)" if "scan_config na ip ?ps = (zero_prefix na, zero_key)"
    using that st assms(1) by (auto simp: peerForIP_def NodeKey_IsZero_def split: prod.splits option.splits if_splits)
  have found: "\<exists>n\<in>set (nm_Peers nm). n_Key n = snd (scan_config na ip ?ps) \<and> peerForIP na show_pfx ip e = Inr (Some n)"
    if "longest na ip R (scan_config na ip ?ps)"
  proof -
    obtain b k where bk: "scan_config na ip ?ps = (b, k)" by fastforce
    with that obtain p where "p \<in> set ?ps" "wp_PublicKey p = k" by (auto simp: longest_def R_def)
    with assms(5) have k: "\<not> NodeKey_IsZero k" "k \<in> n_Key ` set (nm_Peers nm)" by auto
    then obtain n where n: "List.find (\<lambda>p. n_Key p = k) (nm_Peers nm) = Some n"
      by (cases "List.find (\<lambda>p. n_Key p = k) (nm_Peers nm)") (auto simp: find_None_iff)
    then have "n \<in> set (nm_Peers nm)" "n_Key n = k" by (auto simp: find_Some_iff)
    with n k st assms(1) bk show ?thesis by (auto simp: peerForIP_def split: prod.splits)
  qed
  show "(\<exists>n. peerForIP na show_pfx ip e = Inr (Some n)) \<longleftrightarrow> (\<exists>c k. dv_Routes v c = Some k \<and> na_Contains na c ip)"
  proof (cases "\<exists>r\<in>R. na_Contains na (fst r) ip")
    case True
    then have "longest na ip R (scan_config na ip ?ps)" using l by (simp only: if_True)
    from found [OF this] True any show ?thesis by blast
  next
    case False
    then have "scan_config na ip ?ps = (zero_prefix na, zero_key)" using l by (simp only: if_False)
    from none [OF this] False any show ?thesis by blast
  qed
  show "n \<in> set (nm_Peers nm) \<and> routed_to na v ip (n_Key n)" if "peerForIP na show_pfx ip e = Inr (Some n)"
  proof -
    have lg: "longest na ip R (scan_config na ip ?ps)" 
    proof (cases "\<exists>r\<in>R. na_Contains na (fst r) ip")
      case True
      then show ?thesis using l by (simp only: if_True)
    next
      case False
      then have "scan_config na ip ?ps = (zero_prefix na, zero_key)" using l by (simp only: if_False)
      from none [OF this] that show ?thesis by blast
    qed
    from found [OF this] that have n: "n \<in> set (nm_Peers nm)" "n_Key n = snd (scan_config na ip ?ps)" by auto
    obtain b where bk: "scan_config na ip ?ps = (b, n_Key n)" using n(2) by (metis prod.collapse)
    with lg have "routed_to na v ip (n_Key n)" unfolding routed_to_def R [symmetric] by (intro exI [of _ b]) (auto simp: longest_def)
    with n(1) show ?thesis by blast
  qed
qed


definition sample_view :: "addr dev_view" where
  "sample_view = \<lparr>dv_PrivateKey = zero_key, dv_Peers = [wp_PublicKey sample_peer \<mapsto> (wp_Endpoints sample_peer, 25)],
     dv_Routes = [IPPrefix (V4 100 64 0 2) 32 \<mapsto> wp_PublicKey sample_peer]\<rparr>"

definition sample_peer_node :: "addr node" where
  "sample_peer_node = zero_node\<lparr>n_Key := wp_PublicKey sample_peer, n_ComputedName := ''peer''\<rparr>"

definition sample_netmap :: "addr network_map" where
  "sample_netmap = zero_network_map\<lparr>nm_Peers := [sample_peer_node], nm_Addresses := Some [IPPrefix (V4 100 64 0 1) 32]\<rparr>"

lemma sample_view_configured: "configured lazy_cfg sample_view"
  by (simp add: configured_def has_peer_def sample_view_def lazy_cfg_def zero_config_def sample_peer_def Endpoints_Equal_def EqualUnordered_def)


section \<open>Queries to the magic DNS address are answered\<close>

text \<open>The packet that \<^verbatim>\<open>pollResolver\<close> injects is the one \<^verbatim>\<open>Generate\<close> would give.\<close>

lemma pollResolver_Generate:
  assumes hdr: "h = \<lparr>u4_IP4Header = \<lparr>h4_IPProto = Unknown, h4_IPID = 0, h4_Src = magicDNSIP na, h4_Dst = ipp_IP to\<rparr>,
    u4_SrcPort = magicDNSPort, u4_DstPort = ipp_Port to\<rparr>"
    and gen: "Generate (len_UDP4 h) (marshal_UDP4 na h) bs = Some pkt"
  shows "pollResolver_response na c bs to t =
    map_option snd (InjectInboundDirect c (replicate (PacketStartOffset c) 0 @ pkt) (PacketStartOffset c) t)"
proof -
  let ?n = "PacketStartOffset c" and ?hl = "len_UDP4 h"
  have buf: "copy_at (replicate (?n + ?hl + length bs) 0) (?n + ?hl) (?n + ?hl + length bs) bs = Some (replicate ?n 0 @ replicate ?hl 0 @ bs)"
    by (simp add: copy_at_def overwrite_eq replicate_add)
  have "do { (_, buf) \<leftarrow> marshal_UDP4 na h (replicate ?hl 0 @ bs); Some buf } = Some pkt"
    using gen unfolding udp4.Generate_unfold .
  then obtain err where m: "marshal_UDP4 na h (replicate ?hl 0 @ bs) = Some (err, pkt)" by (auto split: Option.bind_splits)
  show ?thesis
    unfolding pollResolver_response_def Let_def hdr [symmetric] length_replicate buf
    by (simp add: m slice_from_def) (cases "InjectInboundDirect c (replicate ?n 0 @ pkt) ?n t"; simp split: prod.split)
qed

lemma dns_reply:
  assumes "netaddr_laws na" "na_Is4 na (ipp_IP to)" "PacketStartOffset c + 28 + length bs \<le> MaxPacketSize c" "length bs \<le> 65507"
    "\<not> t_isTAP t" "te_dev_write c = (\<lambda>_. None)"
  shows "\<exists>pkt q'. pollResolver_response na c bs to t = Some (t\<lparr>t_written := t_written t @ [pkt]\<rparr>) \<and>
    Decode na q pkt = Some q' \<and> IPProto q' = UDP \<and> q_Src q' = IPPort (magicDNSIP na) magicDNSPort \<and> q_Dst q' = to \<and> Payload q' = Some bs"
proof -
  let ?h = "\<lparr>u4_IP4Header = \<lparr>h4_IPProto = Unknown, h4_IPID = 0, h4_Src = magicDNSIP na, h4_Dst = ipp_IP to\<rparr>,
    u4_SrcPort = magicDNSPort, u4_DstPort = ipp_Port to\<rparr>"
  have "valid_ip4 na (u4_IP4Header ?h)" using assms(1,2) by (simp add: valid_ip4_def magicDNSIP_def Is4_IPv4)
  from UDP4_wire [OF this assms(4), of q] obtain pkt q' where pkt: "Generate (len_UDP4 ?h) (marshal_UDP4 na ?h) bs = Some pkt"
    "length pkt = 28 + length bs" "Decode na q pkt = Some q'" "IPProto q' = UDP" "q_Src q' = IPPort (magicDNSIP na) magicDNSPort"
    "q_Dst q' = IPPort (ipp_IP to) (ipp_Port to)" "Payload q' = Some bs" by auto
  have "pollResolver_response na c bs to t = Some (t\<lparr>t_written := t_written t @ [pkt]\<rparr>)"
    unfolding pollResolver_Generate [OF refl pkt(1)] using assms(3,5,6) pkt(2)
    by (simp add: InjectInboundDirect_def tdevWrite_def dev_Write_def slice_from_def)
  with pkt show ?thesis by auto
qed

text \<open>
  C9. A DNS query to 100.100.100.100 never leaves the machine, and its response comes back to the sender: \<^verbatim>\<open>filterOut\<close> drops the query
  and puts it into the resolver's queue, with the sender's address, unless the queue is full; and when the resolver answers
  that sender, the device receives a UDP packet from 100.100.100.100, port 53, to the sender's address and port, with the response as payload.
\<close>

theorem dns_query_answered:
  assumes "netaddr_laws na" and "h_PreFilterOut h = Some (handleLocalPackets na c goos)"
    and "ipp_IP (q_Dst p) = magicDNSIP na" and "ipp_Port (q_Dst p) = magicDNSPort" and "IPProto p = UDP"
    and "Payload p = Some query" and "\<not> u_dnsClosed e" and "length (u_dnsActive e) < maxActiveQueries goos"
    and "na_Is4 na (ipp_IP (q_Src p))" and "PacketStartOffset c + 28 + length resp \<le> MaxPacketSize c" and "length resp \<le> 65507"
    and "\<not> t_isTAP e" and "te_dev_write c = (\<lambda>_. None)"
  shows "filterOut na c h now p e = Some (Drop, e\<lparr>u_dnsActive := u_dnsActive e @ [(query, q_Src p)]\<rparr>) \<and>
    (\<exists>pkt q'. pollResolver_response na c resp (q_Src p) (e\<lparr>u_dnsActive := u_dnsActive e @ [(query, q_Src p)]\<rparr>) =
        Some (e\<lparr>u_dnsActive := u_dnsActive e @ [(query, q_Src p)], t_written := t_written e @ [pkt]\<rparr>) \<and>
      Decode na q pkt = Some q' \<and> IPProto q' = UDP \<and> q_Src q' = q_Dst p \<and> q_Dst q' = q_Src p \<and> Payload q' = Some resp)"
proof
  have "\<not> IsEchoRequest p" using assms(5) by (simp add: IsEchoRequest_def UDP_def ICMPv4_def ICMPv6_def)
  then show "filterOut na c h now p e = Some (Drop, e\<lparr>u_dnsActive := u_dnsActive e @ [(query, q_Src p)]\<rparr>)"
    using assms(2-8) by (simp add: filterOut_def run_hook_def handleLocalPackets_def handleDNS_def EnqueueRequest_def IsDrop_def)
  have d: "q_Dst p = IPPort (magicDNSIP na) magicDNSPort" using assms(3,4) by (cases "q_Dst p") simp
  from dns_reply [OF assms(1,9-11), of "e\<lparr>u_dnsActive := u_dnsActive e @ [(query, q_Src p)]\<rparr>" q] assms(12,13)
  show "\<exists>pkt q'. pollResolver_response na c resp (q_Src p) (e\<lparr>u_dnsActive := u_dnsActive e @ [(query, q_Src p)]\<rparr>) =
        Some (e\<lparr>u_dnsActive := u_dnsActive e @ [(query, q_Src p)], t_written := t_written e @ [pkt]\<rparr>) \<and>
      Decode na q pkt = Some q' \<and> IPProto q' = UDP \<and> q_Src q' = q_Dst p \<and> q_Dst q' = q_Src p \<and> Payload q' = Some resp"
    by (auto simp: d)
qed

definition sample_uengine :: "(addr, addr dev_view, sample_sum) uengine" where
  "sample_uengine = engine.extend (sample_engine\<lparr>e_netMap := Some sample_netmap, e_lastCfgFull := lazy_cfg\<rparr>)
     \<lparr>u_dnsClosed = False, u_dnsActive = [], u_pongCallback = Map.empty, u_tsIPByIPPort = Map.empty, u_pendOpen = Map.empty,
      u_timers = Map.empty, u_nextTimer = 0, u_results = [], u_discoPings = [],
      u_closing = False, u_endpoints = []\<rparr>"

definition sample_dns_query :: bytes where
  "sample_dns_query = [0x45, 0, 0, 30, 0, 0, 0, 0, 64, 17, 0, 0, 100, 64, 0, 1, 100, 100, 100, 100, 0x0F, 0xA0, 0, 53, 0, 10, 0, 0, 1, 2]"

theorem dns_query_answered_witness:
  "\<exists>p e' e'' pkt q'. Decode addr_netaddr (zero_parsed ZeroIP) sample_dns_query = Some p \<and>
    filterOut addr_netaddr sample_tun_env (no_hooks\<lparr>h_PreFilterOut := Some (handleLocalPackets addr_netaddr sample_tun_env ''linux'')\<rparr>) 7 p sample_uengine =
      Some (Drop, e') \<and> u_dnsActive e' = [([1, 2], IPPort (V4 100 64 0 1) 4000)] \<and>
    pollResolver_response addr_netaddr sample_tun_env [3, 4, 5] (IPPort (V4 100 64 0 1) 4000) e' = Some e'' \<and> t_written e'' = [pkt] \<and>
    Decode addr_netaddr (zero_parsed ZeroIP) pkt = Some q' \<and> q_Dst q' = IPPort (V4 100 64 0 1) 4000 \<and> Payload q' = Some [3, 4, 5]"
proof -
  have "case Decode addr_netaddr (zero_parsed ZeroIP) sample_dns_query of
      Some p \<Rightarrow> ipp_IP (q_Dst p) = magicDNSIP addr_netaddr \<and> ipp_Port (q_Dst p) = magicDNSPort \<and> IPProto p = UDP \<and>
        Payload p = Some [1, 2] \<and> q_Src p = IPPort (V4 100 64 0 1) 4000
    | None \<Rightarrow> False" by code_simp
  then obtain p where p: "Decode addr_netaddr (zero_parsed ZeroIP) sample_dns_query = Some p" "ipp_IP (q_Dst p) = magicDNSIP addr_netaddr"
    "ipp_Port (q_Dst p) = magicDNSPort" "IPProto p = UDP" "Payload p = Some [1, 2]" "q_Src p = IPPort (V4 100 64 0 1) 4000"
    by (auto split: option.splits)
  let ?h = "no_hooks\<lparr>h_PreFilterOut := Some (handleLocalPackets addr_netaddr sample_tun_env ''linux'')\<rparr>"
  have e: "\<not> u_dnsClosed sample_uengine" "u_dnsActive sample_uengine = []" "\<not> t_isTAP sample_uengine" "t_written sample_uengine = []"
    by (simp_all add: sample_uengine_def sample_engine_def engine.defs tun.defs sample_tun_def wrap_def SetFilter_def)
  have c: "te_dev_write sample_tun_env = (\<lambda>_. None)" "PacketStartOffset sample_tun_env + 28 + length [3, 4, 5 :: u8] \<le> MaxPacketSize sample_tun_env"
    by (simp_all add: sample_tun_env_def PacketStartOffset_def MaxPacketSize_def)
  from dns_query_answered [OF netaddr_laws_addr _ p(2-5) e(1) _ _ c(2) _ e(3) c(1), of ?h "''linux''" 7 "zero_parsed ZeroIP"] e p
  show ?thesis by (fastforce simp: maxActiveQueries_def addr_netaddr_def)
qed

end
