(* ===== verification/Spec2Isabelle.thy ===== *)
theory Spec2Isabelle
  imports Flowtrack Packet Headers Tsmp Rate Pktfilter Filterrules Tsaddr Mapsession Tunpoll Enginepkt
begin

text \<open>
  A verification library for the data plane and the protocol codecs of a mesh VPN client
  written in Go.
\<close>

end
